theory Spec2Isabelle
  imports Complex_Main
begin

section \<open>Syntax trees\<close>

text \<open>
  Identifier nodes are compared by object identity in the optimizer (they are the keys of a
  WeakMap and of a WeakSet), so an identifier of the input program carries its node identity
  next to its name. \<open>Uid n x\<close> is the node returned by the \<open>n\<close>-th call of
  \<open>path.scope.generateUidIdentifier(x)\<close>, \<open>Runtime x\<close> the identifier that
  \<open>getImportIdentifier(ctx, path, x)\<close> yields for the runtime import \<open>x\<close>,
  \<open>Plain x\<close> a node built by \<open>t.identifier(x)\<close>.
\<close>

datatype ident =
    Src nat string
  | Uid nat string
  | Runtime string
  | Plain string

fun identName :: "ident \<Rightarrow> string" where
  "identName (Src _ x) = x"
| "identName (Uid _ x) = x"
| "identName (Runtime x) = x"
| "identName (Plain x) = x"

datatype nested_kind =
    ParenthesizedExpression
  | TypeCastExpression
  | TSAsExpression
  | TSSatisfiesExpression
  | TSNonNullExpression
  | TSTypeAssertion
  | TSInstantiationExpression

text \<open>
  One type for the Babel nodes that can stand in an expression position. Function bodies
  are never visited by the optimizer, so functions and object methods are opaque (a tag).
  \<open>OtherExpression\<close> is any expression kind that the optimizer does not dispatch on
  (\<open>this\<close>, \<open>await\<close>, class expressions, ...); \<open>OtherNode\<close> is any
  node that is not an expression (patterns, private names, \<open>super\<close>, type annotations).
  The \<open>quasi\<close> of a tagged template is always a template literal, so its two
  fields are kept in the tagged template itself.
\<close>

datatype node =
    Identifier ident
  | BooleanLiteral bool
  | NumericLiteral real
  | NullLiteral
  | StringLiteral string
  | BigIntLiteral string
  | RegExpLiteral string
  | DecimalLiteral string
  | TemplateLiteral "string list" "node list"
  | NestedExpression nested_kind node
  | MemberExpression node node bool
  | ConditionalExpression node node node
  | BinaryExpression string node node
  | LogicalExpression string node node
  | UnaryExpression string node
  | UpdateExpression string node
  | CallExpression node "node list"
  | FunctionExpression nat
  | ArrowFunctionExpression nat
  | AssignmentExpression string node node
  | ArrayExpression "node option list"
  | TupleExpression "node option list"
  | ObjectExpression "node list"
  | RecordExpression "node list"
  | ObjectProperty node node bool
  | ObjectMethod nat
  | SpreadElement node
  | NewExpression node "node list"
  | SequenceExpression "node list"
  | TaggedTemplateExpression node "string list" "node list"
  | JSXElement string "node list" "node list"
  | JSXFragment "node list"
  | JSXAttribute string "node option"
  | JSXSpreadAttribute node
  | JSXExpressionContainer node
  | JSXSpreadChild node
  | JSXText string
  | OtherExpression string
  | OtherNode string

type_synonym declarator = "node \<times> node option"

datatype stmt =
    ExpressionStatement node
  | VariableDeclaration string "declarator list"
  | ReturnStatement "node option"
  | ThrowStatement node
  | BlockStatement "stmt list"
  | IfStatement node stmt "stmt option"
  | ForInStatement string node stmt
  | ForOfStatement string node stmt
  | ForStatement string stmt
  | WhileStatement node stmt
  | DoWhileStatement stmt node
  | SwitchStatement node "(node option \<times> stmt list) list"
  | TryStatement stmt "(string \<times> stmt) option" "stmt option"
  | LabeledStatement string stmt
  | OtherStatement string

text \<open>
  The parts of a loop head that the optimizer never reads (the left side of a
  \<open>for-in\<close>/\<open>for-of\<close>, the init/test/update of a \<open>for\<close>, the parameter of a
  \<open>catch\<close>) are kept as source text.
\<close>

subsection \<open>Type tests of \<open>@babel/types\<close>\<close>

fun isIdentifier :: "node \<Rightarrow> bool" where
  "isIdentifier (Identifier _) = True"
| "isIdentifier _ = False"

fun isMemberExpression :: "node \<Rightarrow> bool" where
  "isMemberExpression (MemberExpression _ _ _) = True"
| "isMemberExpression _ = False"

fun isLiteral :: "node \<Rightarrow> bool" where
  "isLiteral (BooleanLiteral _) = True"
| "isLiteral (NumericLiteral _) = True"
| "isLiteral NullLiteral = True"
| "isLiteral (StringLiteral _) = True"
| "isLiteral (BigIntLiteral _) = True"
| "isLiteral (RegExpLiteral _) = True"
| "isLiteral (DecimalLiteral _) = True"
| "isLiteral (TemplateLiteral _ _) = True"
| "isLiteral _ = False"

fun isTemplateLiteral :: "node \<Rightarrow> bool" where
  "isTemplateLiteral (TemplateLiteral _ _) = True"
| "isTemplateLiteral _ = False"

fun isExpression :: "node \<Rightarrow> bool" where
  "isExpression (ObjectProperty _ _ _) = False"
| "isExpression (ObjectMethod _) = False"
| "isExpression (SpreadElement _) = False"
| "isExpression (JSXAttribute _ _) = False"
| "isExpression (JSXSpreadAttribute _) = False"
| "isExpression (JSXExpressionContainer _) = False"
| "isExpression (JSXSpreadChild _) = False"
| "isExpression (JSXText _) = False"
| "isExpression (OtherNode _) = False"
| "isExpression _ = True"

section \<open>The simplifier\<close>

datatype LiteralState = truthy | falsy | nullish | indeterminate

fun getBooleanishState :: "node \<Rightarrow> LiteralState" where
  "getBooleanishState (BooleanLiteral v) = (if v then truthy else falsy)"
| "getBooleanishState (NumericLiteral v) = (if v = 0 then falsy else truthy)"
| "getBooleanishState NullLiteral = nullish"
| "getBooleanishState (StringLiteral v) = (if v = [] then falsy else truthy)"
| "getBooleanishState (BigIntLiteral v) = (if v = ''0'' then falsy else truthy)"
| "getBooleanishState (Identifier _) = indeterminate"
| "getBooleanishState (NestedExpression _ e) = getBooleanishState e"
| "getBooleanishState _ = indeterminate"

text \<open>
  The \<open>exit\<close> handler of \<open>simplifyExpressions\<close> for a \<open>LogicalExpression\<close>
  node with the given operator and operands: the node that stands at the path afterwards.
\<close>

definition LogicalExpression_exit :: "string \<Rightarrow> node \<Rightarrow> node \<Rightarrow> node" where
  "LogicalExpression_exit operator left right =
     (case getBooleanishState left of
        nullish \<Rightarrow> (if operator = ''??'' then right else left)
      | falsy \<Rightarrow> (if operator = ''||'' then right else left)
      | truthy \<Rightarrow> (if operator = ''&&'' then right else left)
      | indeterminate \<Rightarrow> LogicalExpression operator left right)"

text \<open>The reading of the specification: a literal seen through nesting wrappers.\<close>

fun unwrapNested :: "node \<Rightarrow> node" where
  "unwrapNested (NestedExpression _ e) = unwrapNested e"
| "unwrapNested e = e"

fun isPrimitiveLiteral :: "node \<Rightarrow> bool" where
  "isPrimitiveLiteral (BooleanLiteral _) = True"
| "isPrimitiveLiteral (NumericLiteral _) = True"
| "isPrimitiveLiteral (StringLiteral _) = True"
| "isPrimitiveLiteral (BigIntLiteral _) = True"
| "isPrimitiveLiteral NullLiteral = True"
| "isPrimitiveLiteral _ = False"

section \<open>Optimized expressions\<close>

datatype deps = NoDeps | Dep node | Deps "node list"

record optimized =
  expr :: node
  deps :: deps
  constant' :: bool

definition optimizedExpr :: "node \<Rightarrow> deps \<Rightarrow> bool \<Rightarrow> optimized" where
  "optimizedExpr e d c = \<lparr>expr = e, deps = d, constant' = c\<rparr>"

definition createDependencies :: "deps \<Rightarrow> node list" where
  "createDependencies dependencies =
     (case dependencies of NoDeps \<Rightarrow> [] | Dep d \<Rightarrow> [d] | Deps ds \<Rightarrow> ds)"

definition mergeDependencies :: "node list \<Rightarrow> deps \<Rightarrow> node list" where
  "mergeDependencies target dependencies =
     (case dependencies of NoDeps \<Rightarrow> target | Dep d \<Rightarrow> target @ [d] | Deps ds \<Rightarrow> target @ ds)"

section \<open>OptimizerScope\<close>

datatype cache_type = TMemo | TRef

text \<open>
  Modelled from the spec: the module \<open>imports\<close> is not part of the sources; the four
  runtime symbols are named as the specification names them.
\<close>

definition RUNTIME_BRANCH :: string where "RUNTIME_BRANCH = ''branch''"
definition RUNTIME_CACHE :: string where "RUNTIME_CACHE = ''cache''"
definition RUNTIME_REF :: string where "RUNTIME_REF = ''ref''"
definition RUNTIME_EQUALS :: string where "RUNTIME_EQUALS = ''equals''"

definition getImportIdentifier :: "string \<Rightarrow> node" where
  "getImportIdentifier name = Identifier (Runtime name)"

definition generateUidIdentifier :: "string \<Rightarrow> nat \<Rightarrow> ident \<times> nat" where
  "generateUidIdentifier name u = (Uid u name, Suc u)"

text \<open>
  The fields of an \<open>OptimizerScope\<close>. The object \<open>loop\<close> is indexed by a property
  name; \<open>parent\<close> is not a field here: a scope is always handled together with the
  list of its ancestors (nearest first), which is what the \<open>parent\<close> links spell out.
\<close>

record scope =
  memo :: "ident option"
  ref :: "ident option"
  indecesMemo :: nat
  indecesRef :: nat
  isInLoop :: bool
  statements :: "stmt list"
  loop :: "string \<rightharpoonup> ident"
  loopIndex :: "ident option"
  optimizedID :: "ident \<rightharpoonup> optimized"
  constants :: "ident set"

definition OptimizerScope :: "bool \<Rightarrow> scope" where
  "OptimizerScope inLoop =
     \<lparr>memo = None, ref = None, indecesMemo = 0, indecesRef = 0, isInLoop = inLoop,
      statements = [], loop = Map.empty, loopIndex = None,
      optimizedID = Map.empty, constants = {}\<rparr>"

fun mergeVariableDeclaration_loop ::
  "declarator list \<Rightarrow> stmt list \<Rightarrow> stmt list \<Rightarrow> stmt list" where
  "mergeVariableDeclaration_loop stack newStatements [] = newStatements"
| "mergeVariableDeclaration_loop stack newStatements (VariableDeclaration kind declarations # rest) =
     (if kind = ''let''
      then mergeVariableDeclaration_loop (stack @ declarations) newStatements rest
      else mergeVariableDeclaration_loop []
             ((if stack \<noteq> [] then newStatements @ [VariableDeclaration ''let'' stack]
               else newStatements) @ [VariableDeclaration kind declarations]) rest)"
| "mergeVariableDeclaration_loop stack newStatements (v # rest) =
     mergeVariableDeclaration_loop []
       ((if stack \<noteq> [] then newStatements @ [VariableDeclaration ''let'' stack]
         else newStatements) @ [v]) rest"

definition mergeVariableDeclaration :: "stmt list \<Rightarrow> stmt list" where
  "mergeVariableDeclaration sts = mergeVariableDeclaration_loop [] [] sts"

definition createHeader :: "cache_type \<Rightarrow> scope \<Rightarrow> nat \<Rightarrow> ident \<times> scope \<times> nat" where
  "createHeader type this u =
     (case type of
        TRef \<Rightarrow>
          (case ref this of
             Some r \<Rightarrow> (r, this, u)
           | None \<Rightarrow> (let (r, u') = generateUidIdentifier ''ref'' u
                      in (r, this\<lparr>ref := Some r\<rparr>, u')))
      | TMemo \<Rightarrow>
          (case memo this of
             Some m \<Rightarrow> (m, this, u)
           | None \<Rightarrow> (let (m, u') = generateUidIdentifier ''cache'' u
                      in (m, this\<lparr>memo := Some m\<rparr>, u'))))"

definition createIndex :: "cache_type \<Rightarrow> scope \<Rightarrow> node \<times> scope" where
  "createIndex type this =
     (let current = (if type = TMemo then indecesMemo this else indecesRef this);
          this' = (if type = TMemo then this\<lparr>indecesMemo := indecesMemo this + 1\<rparr>
                   else this\<lparr>indecesRef := indecesRef this + 1\<rparr>)
      in (NumericLiteral (of_nat current), this'))"

text \<open>
  \<open>createLoopHeader(type)\<close> reads and writes \<open>this.loop[type]\<close>. A call that passes
  no argument indexes the object with \<open>undefined\<close>, that is with the property name
  \<open>"undefined"\<close>.
\<close>

definition loopKey :: "cache_type option \<Rightarrow> string" where
  "loopKey type = (case type of Some TMemo \<Rightarrow> ''memo'' | Some TRef \<Rightarrow> ''ref''
                   | None \<Rightarrow> ''undefined'')"

definition createLoopHeader :: "cache_type option \<Rightarrow> scope \<Rightarrow> nat \<Rightarrow> ident \<times> scope \<times> nat" where
  "createLoopHeader type this u =
     (case loop this (loopKey type) of
        Some current \<Rightarrow> (current, this, u)
      | None \<Rightarrow> (let (current, u') = generateUidIdentifier ''loop'' u
                 in (current, this\<lparr>loop := (loop this)(loopKey type \<mapsto> current)\<rparr>, u')))"

definition createLoopIndex :: "scope \<Rightarrow> nat \<Rightarrow> ident \<times> scope \<times> nat" where
  "createLoopIndex this u =
     (case loopIndex this of
        Some i \<Rightarrow> (i, this, u)
      | None \<Rightarrow> (let (i, u') = generateUidIdentifier ''id'' u
                 in (i, this\<lparr>loopIndex := Some i\<rparr>, u')))"

text \<open>
  The methods below return \<open>undefined\<close> as \<open>None\<close>. Those that reach into
  \<open>this.parent\<close> take the ancestors of \<open>this\<close> and return them updated.
\<close>

definition getMemoDeclarations ::
  "scope \<Rightarrow> scope list \<Rightarrow> nat \<Rightarrow> stmt list option \<times> scope \<times> scope list \<times> nat" where
  "getMemoDeclarations this ps u =
     (case memo this of
        None \<Rightarrow> (None, this, ps, u)
      | Some m \<Rightarrow>
          (case ps of
             p # rest \<Rightarrow>
               (let (header, p1, u1) = createHeader TMemo p u;
                    (index, p2) = createIndex TMemo p1;
                    (h, this1, u2) = createHeader TMemo this u1
                in (Some [VariableDeclaration ''let''
                      [(Identifier h,
                        Some (CallExpression (getImportIdentifier RUNTIME_BRANCH)
                          [Identifier header, index, NumericLiteral (of_nat (indecesMemo this1))]))]],
                    this1, p2 # rest, u2))
           | [] \<Rightarrow>
               (Some [VariableDeclaration ''let''
                  [(Identifier m,
                    Some (CallExpression (getImportIdentifier RUNTIME_CACHE)
                      [getImportIdentifier ''useMemo'', NumericLiteral (of_nat (indecesMemo this))]))]],
                this, ps, u)))"

definition getRefDeclarations ::
  "scope \<Rightarrow> scope list \<Rightarrow> nat \<Rightarrow> stmt list option \<times> scope \<times> scope list \<times> nat" where
  "getRefDeclarations this ps u =
     (case ref this of
        None \<Rightarrow> (None, this, ps, u)
      | Some r \<Rightarrow>
          (case ps of
             p # rest \<Rightarrow>
               (let (header, p1, u1) = createHeader TRef p u;
                    (index, p2) = createIndex TRef p1;
                    (h, this1, u2) = createHeader TRef this u1
                in (Some [VariableDeclaration ''let''
                      [(Identifier h,
                        Some (CallExpression (getImportIdentifier RUNTIME_BRANCH)
                          [Identifier header, index, NumericLiteral (of_nat (indecesRef this1))]))]],
                    this1, p2 # rest, u2))
           | [] \<Rightarrow>
               (Some [VariableDeclaration ''let''
                  [(Identifier r,
                    Some (CallExpression (getImportIdentifier RUNTIME_REF)
                      [getImportIdentifier ''useRef'', NumericLiteral (of_nat (indecesRef this))]))]],
                this, ps, u)))"

definition getLoopMemoDeclaration ::
  "scope \<Rightarrow> scope list \<Rightarrow> nat \<Rightarrow> stmt option \<times> scope \<times> scope list \<times> nat" where
  "getLoopMemoDeclaration this ps u =
     (case ps of
        [] \<Rightarrow> (None, this, ps, u)
      | p # rest \<Rightarrow>
          (let (header, p1, u1) = createHeader TMemo p u;
               (index, p2) = createIndex TMemo p1;
               (idx, this1, u2) = createLoopIndex this u1;
               (h, this2, u3) = createHeader TMemo this1 u2
           in (Some (VariableDeclaration ''let''
                 [(Identifier h,
                   Some (CallExpression (getImportIdentifier RUNTIME_BRANCH)
                     [Identifier header, index, NumericLiteral 0])),
                  (Identifier idx, Some (NumericLiteral 0))]),
               this2, p2 # rest, u3)))"

definition getLoopRefDeclaration ::
  "scope \<Rightarrow> scope list \<Rightarrow> nat \<Rightarrow> stmt option \<times> scope \<times> scope list \<times> nat" where
  "getLoopRefDeclaration this ps u =
     (case ps of
        [] \<Rightarrow> (None, this, ps, u)
      | p # rest \<Rightarrow>
          (let (header, p1, u1) = createHeader TRef p u;
               (index, p2) = createIndex TRef p1;
               (idx, this1, u2) = createLoopIndex this u1;
               (h, this2, u3) = createHeader TRef this1 u2
           in (Some (VariableDeclaration ''let''
                 [(Identifier h,
                   Some (CallExpression (getImportIdentifier RUNTIME_BRANCH)
                     [Identifier header, index, NumericLiteral 0])),
                  (Identifier idx, Some (NumericLiteral 0))]),
               this2, p2 # rest, u3)))"

definition getLoopMemoHeaderDeclaration ::
  "scope \<Rightarrow> nat \<Rightarrow> stmt list option \<times> scope \<times> nat" where
  "getLoopMemoHeaderDeclaration this u =
     (case loop this ''memo'' of
        None \<Rightarrow> (None, this, u)
      | Some _ \<Rightarrow>
          (let (header, this1, u1) = createHeader TMemo this u;
               (index, this2, u2) = createLoopIndex this1 u1;
               (localIndex, u3) = generateUidIdentifier ''loopId'' u2;
               (lh, this3, u4) = createLoopHeader (Some TMemo) this2 u3
           in (Some [VariableDeclaration ''let''
                 [(Identifier localIndex, Some (UpdateExpression ''++'' (Identifier index))),
                  (Identifier lh,
                   Some (CallExpression (getImportIdentifier RUNTIME_BRANCH)
                     [Identifier header, Identifier localIndex,
                      NumericLiteral (of_nat (indecesMemo this3))]))]],
               this3, u4)))"

definition getLoopRefHeaderDeclaration ::
  "scope \<Rightarrow> nat \<Rightarrow> stmt list option \<times> scope \<times> nat" where
  "getLoopRefHeaderDeclaration this u =
     (case loop this ''ref'' of
        None \<Rightarrow> (None, this, u)
      | Some _ \<Rightarrow>
          (let (header, this1, u1) = createHeader TRef this u;
               (index, this2, u2) = createLoopIndex this1 u1;
               (localIndex, u3) = generateUidIdentifier ''loopId'' u2;
               (lh, this3, u4) = createLoopHeader (Some TRef) this2 u3
           in (Some [VariableDeclaration ''let''
                 [(Identifier localIndex, Some (UpdateExpression ''++'' (Identifier index))),
                  (Identifier lh,
                   Some (CallExpression (getImportIdentifier RUNTIME_BRANCH)
                     [Identifier header, Identifier localIndex,
                      NumericLiteral (of_nat (indecesRef this3))]))]],
               this3, u4)))"

definition orEmpty :: "'a list option \<Rightarrow> 'a list" where
  "orEmpty xs = (case xs of None \<Rightarrow> [] | Some ys \<Rightarrow> ys)"

definition getStatements ::
  "scope \<Rightarrow> scope list \<Rightarrow> nat \<Rightarrow> stmt list \<times> scope \<times> scope list \<times> nat" where
  "getStatements this ps u =
     (let result = statements this;
          (memoHeader, this1, ps1, u1) =
            (if isInLoop this
             then (let (d, t, v) = getLoopMemoHeaderDeclaration this u in (d, t, ps, v))
             else getMemoDeclarations this ps u);
          (refHeader, this2, ps2, u2) =
            (if isInLoop this1
             then (let (d, t, v) = getLoopRefHeaderDeclaration this1 u1 in (d, t, ps1, v))
             else getRefDeclarations this1 ps1 u1)
      in (mergeVariableDeclaration (orEmpty memoHeader @ orEmpty refHeader @ result),
          this2, ps2, u2))"

definition push :: "stmt list \<Rightarrow> scope \<Rightarrow> scope" where
  "push sts this = this\<lparr>statements := statements this @ sts\<rparr>"

definition setOptimized :: "ident \<Rightarrow> optimized \<Rightarrow> scope \<Rightarrow> scope" where
  "setOptimized key v this = this\<lparr>optimizedID := (optimizedID this)(key \<mapsto> v)\<rparr>"

definition getOptimized :: "ident \<Rightarrow> scope \<Rightarrow> optimized option" where
  "getOptimized key this = optimizedID this key"

text \<open>
  \<open>deleteOptimized\<close> walks from \<open>this\<close> along the \<open>parent\<close> links and deletes the
  key from the first scope that has it.
\<close>

fun deleteOptimized_parents :: "ident \<Rightarrow> scope list \<Rightarrow> scope list" where
  "deleteOptimized_parents key [] = []"
| "deleteOptimized_parents key (current # rest) =
     (if optimizedID current key \<noteq> None
      then current\<lparr>optimizedID := (optimizedID current)(key := None)\<rparr> # rest
      else current # deleteOptimized_parents key rest)"

definition deleteOptimized :: "ident \<Rightarrow> scope \<Rightarrow> scope list \<Rightarrow> scope \<times> scope list" where
  "deleteOptimized key this ps =
     (case deleteOptimized_parents key (this # ps) of
        this' # ps' \<Rightarrow> (this', ps')
      | [] \<Rightarrow> (this, ps))"

definition addConstant :: "ident \<Rightarrow> scope \<Rightarrow> scope" where
  "addConstant v this = this\<lparr>constants := insert v (constants this)\<rparr>"

definition hasConstant :: "ident \<Rightarrow> scope \<Rightarrow> bool" where
  "hasConstant v this = (v \<in> constants this)"

section \<open>The optimizer\<close>

text \<open>
  What the optimizer asks of modules that are not part of the sources is a parameter:
  the skip marker of a node (\<open>shouldSkipNode\<close>), the classification computed by
  \<open>is-constant\<close> for a node with the current scope and its ancestors, the bindings of
  the Babel scope at a path (\<open>isForeignBinding\<close>, \<open>getBindingIdentifier\<close>,
  \<open>getForeignBindings\<close>), the hook kind of a call (\<open>getHookCallType\<close>) and the
  preset flag \<open>ctx.preset.runtime.memo\<close>. A path is given by its node before any rewrite.
\<close>

datatype hook_call_type = HCallback | HEffect | HMemo | HRef | HCustom | HNone | HSkip

record env =
  shouldSkipNode :: "node \<Rightarrow> bool"
  shouldSkipStatement :: "stmt \<Rightarrow> bool"
  constantNode :: "scope \<Rightarrow> scope list \<Rightarrow> node \<Rightarrow> bool"
  isForeignBinding :: "node \<Rightarrow> string \<Rightarrow> bool"
  getBindingIdentifier :: "node \<Rightarrow> string \<Rightarrow> ident option"
  getForeignBindings :: "node \<Rightarrow> ident list"
  getHookCallType :: "node \<Rightarrow> hook_call_type"
  presetRuntimeMemo :: bool

text \<open>
  The state of an \<open>Optimizer\<close>: \<open>scope\<close> is \<open>this.scope\<close>,
  \<open>parents\<close> the scopes reached from it through \<open>parent\<close> (nearest first, the
  root scope last), \<open>uid\<close> the counter behind \<open>generateUidIdentifier\<close>.
\<close>

record optimizer =
  scope :: scope
  parents :: "scope list"
  uid :: nat
  nodeConstantCheckCache :: "node \<rightharpoonup> bool"
  dependency :: "node \<rightharpoonup> optimized"

text \<open>
  Modelled from the spec: \<open>is-constant\<close> is not part of the sources. Its result is
  cached per node in \<open>nodeConstantCheckCache\<close>; the classification itself is the
  parameter \<open>constantNode\<close>.
\<close>

definition isConstant :: "env \<Rightarrow> node \<Rightarrow> optimizer \<Rightarrow> bool \<times> optimizer" where
  "isConstant env path s =
     (case nodeConstantCheckCache s path of
        Some b \<Rightarrow> (b, s)
      | None \<Rightarrow>
          (let b = constantNode env (scope s) (parents s) path
           in (b, s\<lparr>nodeConstantCheckCache := (nodeConstantCheckCache s)(path \<mapsto> b)\<rparr>)))"

text \<open>Modelled from the spec: the nesting wrappers are parentheses and type assertions.\<close>

fun isNestedExpression :: "node \<Rightarrow> bool" where
  "isNestedExpression (NestedExpression _ _) = True"
| "isNestedExpression _ = False"

fun isLVal :: "node \<Rightarrow> bool" where
  "isLVal (Identifier _) = True"
| "isLVal (MemberExpression _ _ _) = True"
| "isLVal (NestedExpression k _) =
     (k = TSAsExpression \<or> k = TSSatisfiesExpression \<or> k = TSTypeAssertion \<or> k = TSNonNullExpression)"
| "isLVal (OtherNode _) = True"
| "isLVal _ = False"

text \<open>The second parameter of \<open>createMemo\<close>.\<close>

datatype dependencies = Omitted | Flag bool | Single node | Array "node option list"

definition ofDeps :: "deps \<Rightarrow> dependencies" where
  "ofDeps d = (case d of NoDeps \<Rightarrow> Omitted | Dep e \<Rightarrow> Single e | Deps es \<Rightarrow> Array (map Some es))"

text \<open>The loop of \<open>createMemo\<close> over an array of dependencies.\<close>

fun dependencyCondition :: "node option list \<Rightarrow> node option \<Rightarrow> ident set \<Rightarrow> node option" where
  "dependencyCondition [] condition newSet = condition"
| "dependencyCondition (None # rest) condition newSet = dependencyCondition rest condition newSet"
| "dependencyCondition (Some d # rest) None newSet =
     dependencyCondition rest (Some d) (case d of Identifier i \<Rightarrow> insert i newSet | _ \<Rightarrow> newSet)"
| "dependencyCondition (Some d # rest) (Some c) newSet =
     (case d of
        Identifier i \<Rightarrow>
          (if i \<notin> newSet
           then dependencyCondition rest (Some (LogicalExpression ''&&'' c d)) (insert i newSet)
           else dependencyCondition rest (Some c) newSet)
      | _ \<Rightarrow> dependencyCondition rest (Some (LogicalExpression ''&&'' c d)) newSet)"

definition createMemoCondition :: "dependencies \<Rightarrow> ident \<Rightarrow> node \<Rightarrow> node \<Rightarrow> node option" where
  "createMemoCondition dependencies header index current =
     (case dependencies of
        Array ds \<Rightarrow> dependencyCondition ds None {}
      | Flag True \<Rightarrow> None
      | Single d \<Rightarrow> Some d
      | _ \<Rightarrow> Some (CallExpression (getImportIdentifier RUNTIME_EQUALS)
                    [Identifier header, index, current]))"

definition createMemo ::
  "node \<Rightarrow> dependencies \<Rightarrow> cache_type \<Rightarrow> optimizer \<Rightarrow> optimized \<times> optimizer" where
  "createMemo current dependencies type s =
     (case (case current of Identifier i \<Rightarrow> getOptimized i (scope s) | _ \<Rightarrow> None) of
        Some optimized \<Rightarrow> (optimized, s)
      | None \<Rightarrow>
          (let (header, sc1, u1) =
                 (if isInLoop (scope s) then createLoopHeader None (scope s) (uid s)
                  else createHeader type (scope s) (uid s));
               (index, sc2) = createIndex type sc1;
               pos = MemberExpression (Identifier header) index True;
               (vid, u2) = generateUidIdentifier ''value'' u1;
               condition = createMemoCondition dependencies header index current;
               (eqid, u3) =
                 (case condition of
                    None \<Rightarrow> (pos, u2)
                  | Some c \<Rightarrow>
                      (if isIdentifier c then (c, u2)
                       else (let (e, u) = generateUidIdentifier ''equals'' u2 in (Identifier e, u))));
               declaration =
                 (case condition of
                    None \<Rightarrow> []
                  | Some c \<Rightarrow> (if isIdentifier c then [] else [(eqid, Some c)]));
               optimized =
                 optimizedExpr (Identifier vid) (if condition = None then Deps [] else Dep eqid) False;
               sc3 = (if condition = None then addConstant vid sc2 else sc2);
               sc4 = (case current of
                        Identifier i \<Rightarrow> setOptimized vid optimized (setOptimized i optimized sc3)
                      | _ \<Rightarrow> sc3);
               init = ConditionalExpression
                        (if condition \<noteq> None then eqid else BinaryExpression ''in'' index (Identifier header))
                        pos (AssignmentExpression ''='' pos current);
               sc5 = push [VariableDeclaration ''let'' (declaration @ [(Identifier vid, Some init)])] sc4
           in (optimized, s\<lparr>scope := sc5, uid := u3\<rparr>)))"

text \<open>
  \<open>this.scope = child\<close> for a new scope whose parent is the current one,
  \<open>this.scope = parent\<close> afterwards (the child scope is handed back), and
  \<open>child.getStatements()\<close> for a child of the current scope.
\<close>

definition enterScope :: "bool \<Rightarrow> optimizer \<Rightarrow> optimizer" where
  "enterScope inLoop s = s\<lparr>scope := OptimizerScope inLoop, parents := scope s # parents s\<rparr>"

definition leaveScope :: "optimizer \<Rightarrow> scope \<times> optimizer" where
  "leaveScope s =
     (case parents s of
        p # ps \<Rightarrow> (scope s, s\<lparr>scope := p, parents := ps\<rparr>)
      | [] \<Rightarrow> (scope s, s))"

definition childStatements :: "scope \<Rightarrow> optimizer \<Rightarrow> (stmt list \<times> scope) \<times> optimizer" where
  "childStatements child s =
     (let (sts, child', ps, u) = getStatements child (scope s # parents s) (uid s)
      in ((sts, child'),
          (case ps of
             p # rest \<Rightarrow> s\<lparr>scope := p, parents := rest, uid := u\<rparr>
           | [] \<Rightarrow> s\<lparr>uid := u\<rparr>)))"

definition pushStatements :: "stmt list \<Rightarrow> optimizer \<Rightarrow> optimizer" where
  "pushStatements sts s = s\<lparr>scope := push sts (scope s)\<rparr>"

definition memoizeIdentifier ::
  "env \<Rightarrow> node \<Rightarrow> ident \<Rightarrow> optimizer \<Rightarrow> optimized \<times> optimizer" where
  "memoizeIdentifier env path i s =
     (if isForeignBinding env path (identName i)
      then (optimizedExpr (Identifier i) (Deps []) True, s)
      else (case getBindingIdentifier env path (identName i) of
              Some binding \<Rightarrow> createMemo (Identifier binding) (Flag False) TMemo s
            | None \<Rightarrow> (optimizedExpr (Identifier i) (Deps []) True, s)))"

definition optimizeIdentifier :: "env \<Rightarrow> ident \<Rightarrow> optimizer \<Rightarrow> optimized \<times> optimizer" where
  "optimizeIdentifier env i s = memoizeIdentifier env (Identifier i) i s"

fun memoizeBindings ::
  "env \<Rightarrow> node \<Rightarrow> ident list \<Rightarrow> node list \<Rightarrow> optimizer \<Rightarrow> node list \<times> optimizer" where
  "memoizeBindings env path [] dependencies s = (dependencies, s)"
| "memoizeBindings env path (binding # rest) dependencies s =
     (let (optimized, s1) = memoizeIdentifier env path binding s
      in memoizeBindings env path rest (mergeDependencies dependencies (deps optimized)) s1)"

definition optimizeFunctionExpression :: "env \<Rightarrow> node \<Rightarrow> optimizer \<Rightarrow> optimized \<times> optimizer" where
  "optimizeFunctionExpression env path s =
     (let (dependencies, s1) =
            memoizeBindings env path (getForeignBindings env path) (createDependencies NoDeps) s
      in createMemo path (Array (map Some dependencies)) TMemo s1)"

definition optimizeRef :: "node list \<Rightarrow> optimizer \<Rightarrow> optimized \<times> optimizer" where
  "optimizeRef arguments s =
     (let init =
            (case arguments of
               [] \<Rightarrow> None
             | arg # _ \<Rightarrow>
                 (case arg of
                    SpreadElement a \<Rightarrow> Some (MemberExpression a (NumericLiteral 0) True)
                  | OtherNode _ \<Rightarrow> None
                  | _ \<Rightarrow> Some arg));
          e = ObjectExpression
                [ObjectProperty (Identifier (Plain ''current''))
                   (case init of Some i \<Rightarrow> i | None \<Rightarrow> UnaryExpression ''void'' (NumericLiteral 0))
                   False]
      in createMemo e (Flag True) TRef s)"

text \<open>
  The expression walk. Every method below reaches its sub-expressions through
  \<open>this.optimizeExpression\<close>, which is its first parameter here; \<open>optimizeExpression\<close>
  itself closes the recursion at the end. A method that takes a path is given the fields of
  the node at that path (the node is rebuilt from them where the source hands on the node it
  has updated in place) or, where the method itself tests the node's type, the node.
  \<open>isPathValid(p, test)\<close> is \<open>test\<close> applied to the node of \<open>p\<close>.

  Two conventions limit what the walk says. The WeakMap \<open>dependency\<close> (like the cache
  of \<open>is-constant\<close>) is keyed by node objects; nodes are values here, so a source tree
  is to be given with different values for different nodes (identifier nodes carry a tag
  for that purpose), and two nodes given as equal values share one entry. The methods
  \<open>optimizeEffect\<close>, \<open>optimizeCallback\<close> and \<open>optimizeMemo\<close> are given for
  calls with a first argument: for a call without arguments the path of the callback is
  \<open>undefined\<close> and \<open>isPathValid\<close> throws in the source, where the definitions
  below hand the call back unchanged. The properties stated for the claims do not go
  through either case.
\<close>

type_synonym expression_walk = "node \<Rightarrow> optimizer \<Rightarrow> optimized \<times> optimizer"

definition createDependency ::
  "expression_walk \<Rightarrow> env \<Rightarrow> node \<Rightarrow> optimizer \<Rightarrow> optimized option \<times> optimizer" where
  "createDependency this_optimizeExpression env path s =
     (let (optimized, s1) = this_optimizeExpression path s
      in if constant' optimized then (None, s1)
         else if (case expr optimized of Identifier i \<Rightarrow> hasConstant i (scope s1) | _ \<Rightarrow> False)
         then (Some optimized, s1)
         else (case dependency s1 path of
                 Some result \<Rightarrow> (Some result, s1)
               | None \<Rightarrow>
                   (let (record, s2) = createMemo (expr optimized) (Flag False) TMemo s1
                    in (Some record, s2\<lparr>dependency := (dependency s2)(path \<mapsto> record)\<rparr>))))"

definition memoizeMemberExpression ::
  "expression_walk \<Rightarrow> env \<Rightarrow> node \<Rightarrow> node \<Rightarrow> bool \<Rightarrow> optimizer \<Rightarrow> (node \<times> node list) \<times> optimizer" where
  "memoizeMemberExpression this_optimizeExpression env obj prop computed s =
     (let (c, s0) = isConstant env (MemberExpression obj prop computed) s
      in if c then ((MemberExpression obj prop computed, []), s0)
         else (let condition = createDependencies NoDeps;
                   (source, s1) = createDependency this_optimizeExpression env obj s0;
                   (obj', condition1) =
                     (case source of
                        Some d \<Rightarrow> (expr d, mergeDependencies condition (deps d))
                      | None \<Rightarrow> (obj, condition));
                   ((prop', condition2), s2) =
                     (if computed \<and> isExpression prop
                      then (let (property, s2) = createDependency this_optimizeExpression env prop s1
                            in (case property of
                                  Some d \<Rightarrow> ((expr d, mergeDependencies condition1 (deps d)), s2)
                                | None \<Rightarrow> ((prop, condition1), s2)))
                      else ((prop, condition1), s1))
               in ((MemberExpression obj' prop' computed, condition2), s2)))"

definition optimizeMemberExpression ::
  "expression_walk \<Rightarrow> env \<Rightarrow> node \<Rightarrow> node \<Rightarrow> bool \<Rightarrow> optimizer \<Rightarrow> optimized \<times> optimizer" where
  "optimizeMemberExpression this_optimizeExpression env obj prop computed s =
     (let ((e, d), s1) = memoizeMemberExpression this_optimizeExpression env obj prop computed s
      in createMemo e (Array (map Some d)) TMemo s1)"

definition optimizeConditionalExpression ::
  "expression_walk \<Rightarrow> env \<Rightarrow> node \<Rightarrow> node \<Rightarrow> node \<Rightarrow> optimizer \<Rightarrow> optimized \<times> optimizer" where
  "optimizeConditionalExpression this_optimizeExpression env test consequent alternate s =
     (let (i, u) = generateUidIdentifier ''value'' (uid s);
          (optimizedTest, s1) = this_optimizeExpression test (s\<lparr>uid := u\<rparr>);
          (optimizedConsequent, s2) = this_optimizeExpression consequent (enterScope False s1);
          (consequentScope, s3) = leaveScope s2;
          (optimizedAlternate, s4) = this_optimizeExpression alternate (enterScope False s3);
          (alternateScope, s5) = leaveScope s4;
          consequentScope1 =
            push [ExpressionStatement
                    (AssignmentExpression ''='' (Identifier i) (expr optimizedConsequent))]
              consequentScope;
          alternateScope1 =
            push [ExpressionStatement
                    (AssignmentExpression ''='' (Identifier i) (expr optimizedAlternate))]
              alternateScope;
          ((consequentStatements, _), s6) = childStatements consequentScope1 s5;
          ((alternateStatements, _), s7) = childStatements alternateScope1 s6
      in (optimizedExpr (Identifier i) NoDeps False,
          pushStatements
            [VariableDeclaration ''let'' [(Identifier i, None)],
             IfStatement (expr optimizedTest) (BlockStatement consequentStatements)
               (Some (BlockStatement alternateStatements))] s7))"

definition optimizeBinaryExpression ::
  "expression_walk \<Rightarrow> env \<Rightarrow> string \<Rightarrow> node \<Rightarrow> node \<Rightarrow> optimizer \<Rightarrow> optimized \<times> optimizer" where
  "optimizeBinaryExpression this_optimizeExpression env operator left right s =
     (if operator = ''|>''
      then (optimizedExpr (BinaryExpression operator left right) NoDeps False, s)
      else (let dependencies = createDependencies NoDeps;
                ((left', dependencies1), s1) =
                  (if isExpression left
                   then (let (l, s1) = createDependency this_optimizeExpression env left s
                         in (case l of
                               Some d \<Rightarrow> ((expr d, mergeDependencies dependencies (deps d)), s1)
                             | None \<Rightarrow> ((left, dependencies), s1)))
                   else ((left, dependencies), s));
                (r, s2) = createDependency this_optimizeExpression env right s1;
                (right', dependencies2) =
                  (case r of
                     Some d \<Rightarrow> (expr d, mergeDependencies dependencies1 (deps d))
                   | None \<Rightarrow> (right, dependencies1))
            in createMemo (BinaryExpression operator left' right')
                 (Array (map Some dependencies2)) TMemo s2))"

definition optimizeLogicalExpression ::
  "expression_walk \<Rightarrow> env \<Rightarrow> string \<Rightarrow> node \<Rightarrow> node \<Rightarrow> optimizer \<Rightarrow> optimized \<times> optimizer" where
  "optimizeLogicalExpression this_optimizeExpression env operator left right s =
     (let (i, u) = generateUidIdentifier ''condition'' (uid s);
          (l, s1) = this_optimizeExpression left (s\<lparr>uid := u\<rparr>);
          (r, s2) = this_optimizeExpression right (enterScope False s1);
          (rightScope, s3) = leaveScope s2;
          test = (if operator = ''??'' then BinaryExpression ''=='' (Identifier i) NullLiteral
                  else if operator = ''||'' then UnaryExpression ''!'' (Identifier i)
                  else Identifier i);
          rightScope1 =
            push [ExpressionStatement (AssignmentExpression ''='' (Identifier i) (expr r))] rightScope;
          ((rightStatements, _), s4) = childStatements rightScope1 s3
      in (optimizedExpr (Identifier i) NoDeps False,
          pushStatements
            [VariableDeclaration ''let'' [(Identifier i, Some (expr l))],
             IfStatement test (BlockStatement rightStatements) None] s4))"

definition optimizeUnaryExpression ::
  "expression_walk \<Rightarrow> env \<Rightarrow> string \<Rightarrow> node \<Rightarrow> optimizer \<Rightarrow> optimized \<times> optimizer" where
  "optimizeUnaryExpression this_optimizeExpression env operator argument s =
     (let (optimized, s1) = createDependency this_optimizeExpression env argument s
      in (case optimized of
            Some d \<Rightarrow> createMemo (UnaryExpression operator (expr d)) (ofDeps (deps d)) TMemo s1
          | None \<Rightarrow> (optimizedExpr (UnaryExpression operator argument) NoDeps False, s1)))"

definition optimizeEffect ::
  "expression_walk \<Rightarrow> env \<Rightarrow> node \<Rightarrow> node list \<Rightarrow> optimizer \<Rightarrow> optimized \<times> optimizer" where
  "optimizeEffect this_optimizeExpression env callee arguments s =
     (case arguments of
        [] \<Rightarrow> (optimizedExpr (CallExpression callee arguments) NoDeps False, s)
      | callback # restArgs \<Rightarrow>
          (if isExpression callback
           then (case restArgs of
                   dependencies # others \<Rightarrow>
                     (if isExpression dependencies
                      then (let (optimizedArray, s1) = this_optimizeExpression dependencies s
                            in (optimizedExpr
                                  (CallExpression callee
                                     (callback # ArrayExpression [Some (expr optimizedArray)] # others))
                                  (deps optimizedArray) False, s1))
                      else (let (optimized, s1) = this_optimizeExpression callback s
                            in (optimizedExpr
                                  (CallExpression callee
                                     [expr optimized, ArrayExpression [Some (expr optimized)]])
                                  (deps optimized) False, s1)))
                 | [] \<Rightarrow>
                     (let (optimized, s1) = this_optimizeExpression callback s
                      in (optimizedExpr
                            (CallExpression callee
                               [expr optimized, ArrayExpression [Some (expr optimized)]])
                            (deps optimized) False, s1)))
           else (optimizedExpr (CallExpression callee arguments) NoDeps False, s)))"

definition optimizeCallback ::
  "expression_walk \<Rightarrow> env \<Rightarrow> node \<Rightarrow> node list \<Rightarrow> optimizer \<Rightarrow> optimized \<times> optimizer" where
  "optimizeCallback this_optimizeExpression env callee arguments s =
     (case arguments of
        [] \<Rightarrow> (optimizedExpr (CallExpression callee arguments) NoDeps False, s)
      | callback # restArgs \<Rightarrow>
          (if isExpression callback
           then (case restArgs of
                   dependencies # others \<Rightarrow>
                     (if isExpression dependencies
                      then (let (d, s1) = this_optimizeExpression dependencies s
                            in createMemo callback (ofDeps (deps d)) TMemo s1)
                      else this_optimizeExpression callback s)
                 | [] \<Rightarrow> this_optimizeExpression callback s)
           else (optimizedExpr (CallExpression callee arguments) NoDeps False, s)))"

definition optimizeMemo ::
  "expression_walk \<Rightarrow> env \<Rightarrow> node \<Rightarrow> node list \<Rightarrow> optimizer \<Rightarrow> optimized \<times> optimizer" where
  "optimizeMemo this_optimizeExpression env callee arguments s =
     (case arguments of
        [] \<Rightarrow> (optimizedExpr (CallExpression callee arguments) NoDeps False, s)
      | callback # restArgs \<Rightarrow>
          (if isExpression callback
           then (case restArgs of
                   dependencies # others \<Rightarrow>
                     (if isExpression dependencies
                      then (let (d, s1) = this_optimizeExpression dependencies s
                            in createMemo (CallExpression callback []) (ofDeps (deps d)) TMemo s1)
                      else (let (optimized, s1) = this_optimizeExpression callback s
                            in createMemo (CallExpression (expr optimized) [])
                                 (ofDeps (deps optimized)) TMemo s1))
                 | [] \<Rightarrow>
                     (let (optimized, s1) = this_optimizeExpression callback s
                      in createMemo (CallExpression (expr optimized) [])
                           (ofDeps (deps optimized)) TMemo s1))
           else (optimizedExpr (CallExpression callee arguments) NoDeps False, s)))"

definition optimizeHookCallee ::
  "expression_walk \<Rightarrow> env \<Rightarrow> node \<Rightarrow> node list \<Rightarrow> optimizer \<Rightarrow> (node \<times> node list) \<times> optimizer" where
  "optimizeHookCallee this_optimizeExpression env callee condition s =
     (if isExpression callee
      then (case callee of
              MemberExpression obj prop computed \<Rightarrow>
                (let ((e, d), s1) = memoizeMemberExpression this_optimizeExpression env obj prop computed s
                 in ((e, mergeDependencies condition (Deps d)), s1))
            | _ \<Rightarrow>
                (let (optimizedCallee, s1) = createDependency this_optimizeExpression env callee s
                 in (case optimizedCallee of
                       Some d \<Rightarrow> ((expr d, mergeDependencies condition (deps d)), s1)
                     | None \<Rightarrow> ((callee, condition), s1))))
      else ((callee, condition), s))"

definition optimizeSpreadElement ::
  "expression_walk \<Rightarrow> env \<Rightarrow> node \<Rightarrow> node list \<Rightarrow> optimizer \<Rightarrow> (node \<times> node list) \<times> optimizer" where
  "optimizeSpreadElement this_optimizeExpression env argument condition s =
     (let (optimized, s1) = createDependency this_optimizeExpression env argument s
      in (case optimized of
            Some d \<Rightarrow> ((SpreadElement (expr d), mergeDependencies condition (deps d)), s1)
          | None \<Rightarrow> ((SpreadElement argument, condition), s1)))"

fun optimizeHookArguments ::
  "expression_walk \<Rightarrow> env \<Rightarrow> node list \<Rightarrow> node list \<Rightarrow> optimizer \<Rightarrow> (node list \<times> node list) \<times> optimizer" where
  "optimizeHookArguments this_optimizeExpression env [] condition s = (([], condition), s)"
| "optimizeHookArguments this_optimizeExpression env (argument # rest) condition s =
     (let ((argument', condition1), s1) =
            (if isExpression argument
             then (let (optimized, s1) = createDependency this_optimizeExpression env argument s
                   in (case optimized of
                         Some d \<Rightarrow> ((expr d, mergeDependencies condition (deps d)), s1)
                       | None \<Rightarrow> ((argument, condition), s1)))
             else (case argument of
                     SpreadElement a \<Rightarrow> optimizeSpreadElement this_optimizeExpression env a condition s
                   | _ \<Rightarrow> ((argument, condition), s)));
          ((rest', condition2), s2) = optimizeHookArguments this_optimizeExpression env rest condition1 s1
      in ((argument' # rest', condition2), s2))"

definition optimizeCustomHookCall ::
  "expression_walk \<Rightarrow> env \<Rightarrow> node \<Rightarrow> node list \<Rightarrow> hook_call_type \<Rightarrow> optimizer \<Rightarrow> optimized \<times> optimizer" where
  "optimizeCustomHookCall this_optimizeExpression env callee arguments hookType s =
     (let condition = createDependencies NoDeps;
          ((callee', condition1), s1) =
            (if hookType = HNone then optimizeHookCallee this_optimizeExpression env callee condition s
             else ((callee, condition), s));
          ((arguments', condition2), s2) = optimizeHookArguments this_optimizeExpression env arguments condition1 s1
      in if hookType = HCustom
         then (optimizedExpr (CallExpression callee' arguments') (Deps condition2) False, s2)
         else createMemo (CallExpression callee' arguments') (Array (map Some condition2)) TMemo s2)"

definition optimizeCallExpression ::
  "expression_walk \<Rightarrow> env \<Rightarrow> node \<Rightarrow> node list \<Rightarrow> optimizer \<Rightarrow> optimized \<times> optimizer" where
  "optimizeCallExpression this_optimizeExpression env callee arguments s =
     (case getHookCallType env (CallExpression callee arguments) of
        HCallback \<Rightarrow> optimizeCallback this_optimizeExpression env callee arguments s
      | HEffect \<Rightarrow> optimizeEffect this_optimizeExpression env callee arguments s
      | HMemo \<Rightarrow> optimizeMemo this_optimizeExpression env callee arguments s
      | HRef \<Rightarrow> optimizeRef arguments s
      | HCustom \<Rightarrow> optimizeCustomHookCall this_optimizeExpression env callee arguments HCustom s
      | HNone \<Rightarrow> optimizeCustomHookCall this_optimizeExpression env callee arguments HNone s
      | HSkip \<Rightarrow> (optimizedExpr (CallExpression callee arguments) NoDeps False, s))"

definition optimizeLVal ::
  "expression_walk \<Rightarrow> env \<Rightarrow> node \<Rightarrow> bool \<Rightarrow> optimizer \<Rightarrow> (node \<times> node list) \<times> optimizer" where
  "optimizeLVal this_optimizeExpression env path dirty s =
     (let s1 =
            (case path of
               Identifier i \<Rightarrow>
                 (if dirty
                  then (case getBindingIdentifier env path (identName i) of
                          Some binding \<Rightarrow>
                            (let (sc, ps) = deleteOptimized binding (scope s) (parents s)
                             in s\<lparr>scope := sc, parents := ps\<rparr>)
                        | None \<Rightarrow> s)
                  else s)
             | _ \<Rightarrow> s)
      in (case path of
            MemberExpression obj prop computed \<Rightarrow> memoizeMemberExpression this_optimizeExpression env obj prop computed s1
          | _ \<Rightarrow> ((path, []), s1)))"

definition optimizeAssignmentExpression ::
  "expression_walk \<Rightarrow> env \<Rightarrow> string \<Rightarrow> node \<Rightarrow> node \<Rightarrow> optimizer \<Rightarrow> optimized \<times> optimizer" where
  "optimizeAssignmentExpression this_optimizeExpression env operator left right s =
     (if isLVal left
      then (let dependencies = createDependencies NoDeps;
                ((left', d), s1) = optimizeLVal this_optimizeExpression env left True s;
                dependencies1 = mergeDependencies dependencies (Deps d);
                (r, s2) = createDependency this_optimizeExpression env right s1;
                (right', dependencies2) =
                  (case r of
                     Some d \<Rightarrow> (expr d, mergeDependencies dependencies1 (deps d))
                   | None \<Rightarrow> (right, dependencies1))
            in (optimizedExpr (AssignmentExpression operator left' right') (Deps dependencies2) False,
                s2))
      else (optimizedExpr (AssignmentExpression operator left right) NoDeps False, s))"

fun optimizeArrayElements ::
  "expression_walk \<Rightarrow> env \<Rightarrow> node option list \<Rightarrow> node list \<Rightarrow> optimizer \<Rightarrow> (node option list \<times> node list) \<times> optimizer" where
  "optimizeArrayElements this_optimizeExpression env [] condition s = (([], condition), s)"
| "optimizeArrayElements this_optimizeExpression env (element # rest) condition s =
     (let ((element', condition1), s1) =
            (case element of
               None \<Rightarrow> ((None, condition), s)
             | Some e \<Rightarrow>
                 (if isExpression e
                  then (let (optimized, s1) = createDependency this_optimizeExpression env e s
                        in (case optimized of
                              Some d \<Rightarrow> ((Some (expr d), mergeDependencies condition (deps d)), s1)
                            | None \<Rightarrow> ((Some e, condition), s1)))
                  else (case e of
                          SpreadElement a \<Rightarrow>
                            (let ((e', c), s1) = optimizeSpreadElement this_optimizeExpression env a condition s
                             in ((Some e', c), s1))
                        | _ \<Rightarrow> ((Some e, condition), s))));
          ((rest', condition2), s2) = optimizeArrayElements this_optimizeExpression env rest condition1 s1
      in ((element' # rest', condition2), s2))"

definition optimizeArrayExpression ::
  "expression_walk \<Rightarrow> env \<Rightarrow> bool \<Rightarrow> node option list \<Rightarrow> optimizer \<Rightarrow> optimized \<times> optimizer" where
  "optimizeArrayExpression this_optimizeExpression env tuple elements s =
     (let ((elements', condition), s1) =
            optimizeArrayElements this_optimizeExpression env elements (createDependencies NoDeps) s
      in createMemo (if tuple then TupleExpression elements' else ArrayExpression elements')
           (Array (map Some condition)) TMemo s1)"

definition optimizeObjectProperty ::
  "expression_walk \<Rightarrow> env \<Rightarrow> node \<Rightarrow> node \<Rightarrow> bool \<Rightarrow> node list \<Rightarrow> optimizer \<Rightarrow> (node \<times> node list) \<times> optimizer" where
  "optimizeObjectProperty this_optimizeExpression env key v computed condition s =
     (let ((key', condition1), s1) =
            (if computed \<and> isExpression key
             then (let (optimized, s1) = createDependency this_optimizeExpression env key s
                   in (case optimized of
                         Some d \<Rightarrow> ((expr d, mergeDependencies condition (deps d)), s1)
                       | None \<Rightarrow> ((key, condition), s1)))
             else ((key, condition), s));
          ((v', condition2), s2) =
            (if isExpression v
             then (let (optimized, s2) = createDependency this_optimizeExpression env v s1
                   in (case optimized of
                         Some d \<Rightarrow> ((expr d, mergeDependencies condition1 (deps d)), s2)
                       | None \<Rightarrow> ((v, condition1), s2)))
             else ((v, condition1), s1))
      in ((ObjectProperty key' v' computed, condition2), s2))"

fun optimizeObjectProperties ::
  "expression_walk \<Rightarrow> env \<Rightarrow> node \<Rightarrow> node list \<Rightarrow> node list \<Rightarrow> optimizer \<Rightarrow> (node list \<times> node list) \<times> optimizer" where
  "optimizeObjectProperties this_optimizeExpression env path [] condition s = (([], condition), s)"
| "optimizeObjectProperties this_optimizeExpression env path (element # rest) condition s =
     (let ((element', condition1), s1) =
            (case element of
               ObjectProperty key v computed \<Rightarrow> optimizeObjectProperty this_optimizeExpression env key v computed condition s
             | SpreadElement a \<Rightarrow> optimizeSpreadElement this_optimizeExpression env a condition s
             | ObjectMethod _ \<Rightarrow>
                 (let (dependencies, s1) =
                        memoizeBindings env path (getForeignBindings env path)
                          (createDependencies NoDeps) s
                  in ((element, mergeDependencies condition (Deps dependencies)), s1))
             | _ \<Rightarrow> ((element, condition), s));
          ((rest', condition2), s2) = optimizeObjectProperties this_optimizeExpression env path rest condition1 s1
      in ((element' # rest', condition2), s2))"

definition optimizeObjectExpression ::
  "expression_walk \<Rightarrow> env \<Rightarrow> bool \<Rightarrow> node list \<Rightarrow> optimizer \<Rightarrow> optimized \<times> optimizer" where
  "optimizeObjectExpression this_optimizeExpression env isRecord properties s =
     (let path = (if isRecord then RecordExpression properties else ObjectExpression properties);
          ((properties', condition), s1) =
            optimizeObjectProperties this_optimizeExpression env path properties (createDependencies NoDeps) s
      in createMemo (if isRecord then RecordExpression properties' else ObjectExpression properties')
           (Array (map Some condition)) TMemo s1)"

definition optimizeNewExpression ::
  "expression_walk \<Rightarrow> env \<Rightarrow> node \<Rightarrow> node list \<Rightarrow> optimizer \<Rightarrow> optimized \<times> optimizer" where
  "optimizeNewExpression this_optimizeExpression env callee arguments s =
     (if isExpression callee
      then (let condition = createDependencies NoDeps;
                (c, s1) = createDependency this_optimizeExpression env callee s;
                (callee', condition1) =
                  (case c of
                     Some d \<Rightarrow> (expr d, mergeDependencies condition (deps d))
                   | None \<Rightarrow> (callee, condition));
                ((arguments', condition2), s2) = optimizeHookArguments this_optimizeExpression env arguments condition1 s1
            in createMemo (NewExpression callee' arguments') (Array (map Some condition2)) TMemo s2)
      else (optimizedExpr (NewExpression callee arguments) NoDeps False, s))"

fun optimizeSequenceExpressions ::
  "expression_walk \<Rightarrow> env \<Rightarrow> node list \<Rightarrow> optimizer \<Rightarrow> node list \<times> optimizer" where
  "optimizeSequenceExpressions this_optimizeExpression env [] s = ([], s)"
| "optimizeSequenceExpressions this_optimizeExpression env (e # rest) s =
     (let (result, s1) = this_optimizeExpression e s;
          (rest', s2) = optimizeSequenceExpressions this_optimizeExpression env rest s1
      in (expr result # rest', s2))"

definition optimizeSequenceExpression ::
  "expression_walk \<Rightarrow> env \<Rightarrow> node list \<Rightarrow> optimizer \<Rightarrow> optimized \<times> optimizer" where
  "optimizeSequenceExpression this_optimizeExpression env expressions s =
     (let (expressions', s1) = optimizeSequenceExpressions this_optimizeExpression env expressions s
      in (optimizedExpr (SequenceExpression expressions') NoDeps False, s1))"

fun memoizeTemplateExpressions ::
  "expression_walk \<Rightarrow> env \<Rightarrow> node list \<Rightarrow> node list \<Rightarrow> optimizer \<Rightarrow> (node list \<times> node list) \<times> optimizer" where
  "memoizeTemplateExpressions this_optimizeExpression env [] conditions s = (([], conditions), s)"
| "memoizeTemplateExpressions this_optimizeExpression env (e # rest) conditions s =
     (let ((e', conditions1), s1) =
            (if isExpression e
             then (let (d, s1) = createDependency this_optimizeExpression env e s
                   in (case d of
                         Some d \<Rightarrow> ((expr d, mergeDependencies conditions (deps d)), s1)
                       | None \<Rightarrow> ((e, conditions), s1)))
             else ((e, conditions), s));
          ((rest', conditions2), s2) = memoizeTemplateExpressions this_optimizeExpression env rest conditions1 s1
      in ((e' # rest', conditions2), s2))"

definition memoizeTemplateLiteral ::
  "expression_walk \<Rightarrow> env \<Rightarrow> string list \<Rightarrow> node list \<Rightarrow> optimizer \<Rightarrow> (node \<times> node list) \<times> optimizer" where
  "memoizeTemplateLiteral this_optimizeExpression env quasis expressions s =
     (let ((expressions', conditions), s1) =
            memoizeTemplateExpressions this_optimizeExpression env expressions (createDependencies NoDeps) s
      in ((TemplateLiteral quasis expressions', conditions), s1))"

definition optimizeTemplateLiteral ::
  "expression_walk \<Rightarrow> env \<Rightarrow> string list \<Rightarrow> node list \<Rightarrow> optimizer \<Rightarrow> optimized \<times> optimizer" where
  "optimizeTemplateLiteral this_optimizeExpression env quasis expressions s =
     (let ((e, d), s1) = memoizeTemplateLiteral this_optimizeExpression env quasis expressions s
      in createMemo e (Array (map Some d)) TMemo s1)"

definition optimizedTaggedTemplateExpression ::
  "expression_walk \<Rightarrow> env \<Rightarrow> node \<Rightarrow> string list \<Rightarrow> node list \<Rightarrow> optimizer \<Rightarrow> optimized \<times> optimizer" where
  "optimizedTaggedTemplateExpression this_optimizeExpression env tag quasis expressions s =
     (let conditions = createDependencies NoDeps;
          (t, s1) = createDependency this_optimizeExpression env tag s;
          (tag', conditions1) =
            (case t of
               Some d \<Rightarrow> (expr d, mergeDependencies conditions (deps d))
             | None \<Rightarrow> (tag, conditions));
          ((quasi, d), s2) = memoizeTemplateLiteral this_optimizeExpression env quasis expressions s1;
          conditions2 = mergeDependencies conditions1 (Deps d)
      in createMemo
           (case quasi of
              TemplateLiteral quasis' expressions' \<Rightarrow> TaggedTemplateExpression tag' quasis' expressions'
            | _ \<Rightarrow> TaggedTemplateExpression tag' quasis expressions)
           (Array (map Some conditions2)) TMemo s2)"

definition memoizeJSXExpressionContainer ::
  "expression_walk \<Rightarrow> env \<Rightarrow> node \<Rightarrow> node list \<Rightarrow> optimizer \<Rightarrow> (node \<times> node list) \<times> optimizer" where
  "memoizeJSXExpressionContainer this_optimizeExpression env e conditions s =
     (if isExpression e
      then (let (optimized, s1) = createDependency this_optimizeExpression env e s
            in (case optimized of
                  Some d \<Rightarrow> ((JSXExpressionContainer (expr d), mergeDependencies conditions (deps d)), s1)
                | None \<Rightarrow> ((JSXExpressionContainer e, conditions), s1)))
      else ((JSXExpressionContainer e, conditions), s))"

definition memoizeJSXSpreadChild ::
  "expression_walk \<Rightarrow> env \<Rightarrow> node \<Rightarrow> node list \<Rightarrow> optimizer \<Rightarrow> (node \<times> node list) \<times> optimizer" where
  "memoizeJSXSpreadChild this_optimizeExpression env e conditions s =
     (let (optimized, s1) = createDependency this_optimizeExpression env e s
      in (case optimized of
            Some d \<Rightarrow> ((JSXSpreadChild (expr d), mergeDependencies conditions (deps d)), s1)
          | None \<Rightarrow> ((JSXSpreadChild e, conditions), s1)))"

fun memoizeJSXChildrenLoop ::
  "expression_walk \<Rightarrow> env \<Rightarrow> node list \<Rightarrow> node list \<Rightarrow> optimizer \<Rightarrow> (node list \<times> node list) \<times> optimizer" where
  "memoizeJSXChildrenLoop this_optimizeExpression env [] conditions s = (([], conditions), s)"
| "memoizeJSXChildrenLoop this_optimizeExpression env (child # rest) conditions s =
     (let ((child', conditions1), s1) =
            (case child of
               JSXFragment _ \<Rightarrow>
                 (let (optimized, s1) = createDependency this_optimizeExpression env child s
                  in (case optimized of
                        Some d \<Rightarrow>
                          ((JSXExpressionContainer (expr d), mergeDependencies conditions (deps d)), s1)
                      | None \<Rightarrow> ((child, conditions), s1)))
             | JSXElement _ _ _ \<Rightarrow>
                 (let (optimized, s1) = createDependency this_optimizeExpression env child s
                  in (case optimized of
                        Some d \<Rightarrow>
                          ((JSXExpressionContainer (expr d), mergeDependencies conditions (deps d)), s1)
                      | None \<Rightarrow> ((child, conditions), s1)))
             | JSXExpressionContainer e \<Rightarrow> memoizeJSXExpressionContainer this_optimizeExpression env e conditions s
             | JSXSpreadChild e \<Rightarrow> memoizeJSXSpreadChild this_optimizeExpression env e conditions s
             | _ \<Rightarrow> ((child, conditions), s));
          ((rest', conditions2), s2) = memoizeJSXChildrenLoop this_optimizeExpression env rest conditions1 s1
      in ((child' # rest', conditions2), s2))"

definition memoizeJSXChildren ::
  "expression_walk \<Rightarrow> env \<Rightarrow> node list \<Rightarrow> optimizer \<Rightarrow> (node list \<times> node list) \<times> optimizer" where
  "memoizeJSXChildren this_optimizeExpression env children s =
     memoizeJSXChildrenLoop this_optimizeExpression env children (createDependencies NoDeps) s"

definition optimizeJSXFragment ::
  "expression_walk \<Rightarrow> env \<Rightarrow> node list \<Rightarrow> optimizer \<Rightarrow> optimized \<times> optimizer" where
  "optimizeJSXFragment this_optimizeExpression env children s =
     (if presetRuntimeMemo env
      then (let ((children', dependencies), s1) = memoizeJSXChildren this_optimizeExpression env children s
            in createMemo (JSXFragment children') (Array (map Some dependencies)) TMemo s1)
      else (optimizedExpr (JSXFragment children) NoDeps False, s))"

definition optimizeJSXAttribute ::
  "expression_walk \<Rightarrow> env \<Rightarrow> string \<Rightarrow> node option \<Rightarrow> node list \<Rightarrow> optimizer \<Rightarrow> (node \<times> node list) \<times> optimizer" where
  "optimizeJSXAttribute this_optimizeExpression env name v dependencies s =
     (case v of
        None \<Rightarrow> ((JSXAttribute name v, dependencies), s)
      | Some a \<Rightarrow>
          (case a of
             JSXFragment _ \<Rightarrow>
               (let (optimized, s1) = createDependency this_optimizeExpression env a s
                in (case optimized of
                      Some d \<Rightarrow>
                        ((JSXAttribute name (Some (JSXExpressionContainer (expr d))),
                          mergeDependencies dependencies (deps d)), s1)
                    | None \<Rightarrow> ((JSXAttribute name v, dependencies), s1)))
           | JSXElement _ _ _ \<Rightarrow>
               (let (optimized, s1) = createDependency this_optimizeExpression env a s
                in (case optimized of
                      Some d \<Rightarrow>
                        ((JSXAttribute name (Some (JSXExpressionContainer (expr d))),
                          mergeDependencies dependencies (deps d)), s1)
                    | None \<Rightarrow> ((JSXAttribute name v, dependencies), s1)))
           | JSXExpressionContainer e \<Rightarrow>
               (let ((a', d), s1) = memoizeJSXExpressionContainer this_optimizeExpression env e dependencies s
                in ((JSXAttribute name (Some a'), d), s1))
           | _ \<Rightarrow> ((JSXAttribute name v, dependencies), s)))"

fun optimizeJSXAttributesLoop ::
  "expression_walk \<Rightarrow> env \<Rightarrow> node list \<Rightarrow> node list \<Rightarrow> optimizer \<Rightarrow> (node list \<times> node list) \<times> optimizer" where
  "optimizeJSXAttributesLoop this_optimizeExpression env [] dependencies s = (([], dependencies), s)"
| "optimizeJSXAttributesLoop this_optimizeExpression env (attribute # rest) dependencies s =
     (let ((attribute', dependencies1), s1) =
            (case attribute of
               JSXAttribute name v \<Rightarrow> optimizeJSXAttribute this_optimizeExpression env name v dependencies s
             | JSXSpreadAttribute a \<Rightarrow>
                 (let (optimized, s1) = createDependency this_optimizeExpression env a s
                  in (case optimized of
                        Some d \<Rightarrow>
                          ((JSXSpreadAttribute (expr d), mergeDependencies dependencies (deps d)), s1)
                      | None \<Rightarrow> ((attribute, dependencies), s1)))
             | _ \<Rightarrow> ((attribute, dependencies), s));
          ((rest', dependencies2), s2) = optimizeJSXAttributesLoop this_optimizeExpression env rest dependencies1 s1
      in ((attribute' # rest', dependencies2), s2))"

definition optimizeJSXAttributes ::
  "expression_walk \<Rightarrow> env \<Rightarrow> node list \<Rightarrow> optimizer \<Rightarrow> (node list \<times> node list) \<times> optimizer" where
  "optimizeJSXAttributes this_optimizeExpression env attributes s =
     optimizeJSXAttributesLoop this_optimizeExpression env attributes (createDependencies NoDeps) s"

definition optimizeJSXElement ::
  "expression_walk \<Rightarrow> env \<Rightarrow> string \<Rightarrow> node list \<Rightarrow> node list \<Rightarrow> optimizer \<Rightarrow> optimized \<times> optimizer" where
  "optimizeJSXElement this_optimizeExpression env name attributes children s =
     (if presetRuntimeMemo env
      then (let ((attributes', dependencies), s1) = optimizeJSXAttributes this_optimizeExpression env attributes s;
                ((children', dependencies1), s2) =
                  (if children \<noteq> []
                   then (let ((c, d), s2) = memoizeJSXChildren this_optimizeExpression env children s1
                         in ((c, mergeDependencies dependencies (Deps d)), s2))
                   else ((children, dependencies), s1))
            in createMemo (JSXElement name attributes' children')
                 (Array (map Some dependencies1)) TMemo s2)
      else (optimizedExpr (JSXElement name attributes children) NoDeps False, s))"

text \<open>
  Two walks that agree on all nodes below a size give the same result in every method
  that only reaches smaller nodes; this is what closing the recursion needs.
\<close>

definition agree :: "nat \<Rightarrow> expression_walk \<Rightarrow> expression_walk \<Rightarrow> bool" where
  "agree n f g \<longleftrightarrow> (\<forall>x. size x < n \<longrightarrow> f x = g x)"

lemma agree_mono: "agree n f g \<Longrightarrow> m \<le> n \<Longrightarrow> agree m f g"
  by (simp add: agree_def)

lemma agreeD: "agree n f g \<Longrightarrow> size x < n \<Longrightarrow> f x = g x"
  by (simp add: agree_def)

lemma agreeI: "(\<And>x t. size x < n \<Longrightarrow> f x t = g x t) \<Longrightarrow> agree n f g"
  by (auto simp: agree_def intro!: ext)

lemma createDependency_agree:
  assumes "agree (Suc (size path)) f g"
  shows "createDependency f env path = createDependency g env path"
proof -
  have base: "\<And>x. size x < Suc (size path) \<Longrightarrow> f x = g x"
    by (rule agreeD[OF assms])
  show ?thesis
    by (intro ext)
       (simp add: createDependency_def base
        cong: node.case_cong option.case_cong list.case_cong if_cong hook_call_type.case_cong split del: if_split)
qed

lemma memoizeMemberExpression_agree:
  assumes "agree (Suc (size obj + size prop)) f g"
  shows "memoizeMemberExpression f env obj prop = memoizeMemberExpression g env obj prop"
proof -
  have base: "\<And>x. size x < Suc (size obj + size prop) \<Longrightarrow> f x = g x"
    by (rule agreeD[OF assms])
  have h1: "\<And>ypath. Suc (size ypath) \<le> Suc (size obj + size prop) \<Longrightarrow>
      createDependency f env ypath = createDependency g env ypath"
    by (rule createDependency_agree[OF agree_mono[OF assms]])
  show ?thesis
    by (intro ext)
       (simp add: memoizeMemberExpression_def base h1
        cong: node.case_cong option.case_cong list.case_cong if_cong hook_call_type.case_cong split del: if_split)
qed

lemma optimizeMemberExpression_agree:
  assumes "agree (Suc (size obj + size prop)) f g"
  shows "optimizeMemberExpression f env obj prop = optimizeMemberExpression g env obj prop"
proof -
  have base: "\<And>x. size x < Suc (size obj + size prop) \<Longrightarrow> f x = g x"
    by (rule agreeD[OF assms])
  have h1: "\<And>yobj yprop. Suc (size yobj + size yprop) \<le> Suc (size obj + size prop) \<Longrightarrow>
      memoizeMemberExpression f env yobj yprop = memoizeMemberExpression g env yobj yprop"
    by (rule memoizeMemberExpression_agree[OF agree_mono[OF assms]])
  show ?thesis
    by (intro ext)
       (simp add: optimizeMemberExpression_def base h1
        cong: node.case_cong option.case_cong list.case_cong if_cong hook_call_type.case_cong split del: if_split)
qed

lemma optimizeMemberExpression_cong [fundef_cong]:
  assumes "\<And>x t. size x < Suc (size obj + size prop) \<Longrightarrow> f x t = g x t"
  shows "optimizeMemberExpression f env obj prop computed s =
         optimizeMemberExpression g env obj prop computed s"
proof -
  have "agree (Suc (size obj + size prop)) f g"
    by (rule agreeI) (rule assms)
  from optimizeMemberExpression_agree[OF this] show ?thesis
    by simp
qed

lemma optimizeConditionalExpression_agree:
  assumes "agree (Suc (size test + size consequent + size alternate)) f g"
  shows "optimizeConditionalExpression f env test consequent alternate = optimizeConditionalExpression g env test consequent alternate"
proof -
  have base: "\<And>x. size x < Suc (size test + size consequent + size alternate) \<Longrightarrow> f x = g x"
    by (rule agreeD[OF assms])
  show ?thesis
    by (intro ext)
       (simp add: optimizeConditionalExpression_def base
        cong: node.case_cong option.case_cong list.case_cong if_cong hook_call_type.case_cong split del: if_split)
qed

lemma optimizeConditionalExpression_cong [fundef_cong]:
  assumes "\<And>x t. size x < Suc (size test + size consequent + size alternate) \<Longrightarrow> f x t = g x t"
  shows "optimizeConditionalExpression f env test consequent alternate s =
         optimizeConditionalExpression g env test consequent alternate s"
proof -
  have "agree (Suc (size test + size consequent + size alternate)) f g"
    by (rule agreeI) (rule assms)
  from optimizeConditionalExpression_agree[OF this] show ?thesis
    by simp
qed

lemma optimizeBinaryExpression_agree:
  assumes "agree (Suc (size left + size right)) f g"
  shows "optimizeBinaryExpression f env operator left right = optimizeBinaryExpression g env operator left right"
proof -
  have base: "\<And>x. size x < Suc (size left + size right) \<Longrightarrow> f x = g x"
    by (rule agreeD[OF assms])
  have h1: "\<And>ypath. Suc (size ypath) \<le> Suc (size left + size right) \<Longrightarrow>
      createDependency f env ypath = createDependency g env ypath"
    by (rule createDependency_agree[OF agree_mono[OF assms]])
  show ?thesis
    by (intro ext)
       (simp add: optimizeBinaryExpression_def base h1
        cong: node.case_cong option.case_cong list.case_cong if_cong hook_call_type.case_cong split del: if_split)
qed

lemma optimizeBinaryExpression_cong [fundef_cong]:
  assumes "\<And>x t. size x < Suc (size left + size right) \<Longrightarrow> f x t = g x t"
  shows "optimizeBinaryExpression f env operator left right s =
         optimizeBinaryExpression g env operator left right s"
proof -
  have "agree (Suc (size left + size right)) f g"
    by (rule agreeI) (rule assms)
  from optimizeBinaryExpression_agree[OF this] show ?thesis
    by simp
qed

lemma optimizeLogicalExpression_agree:
  assumes "agree (Suc (size left + size right)) f g"
  shows "optimizeLogicalExpression f env operator left right = optimizeLogicalExpression g env operator left right"
proof -
  have base: "\<And>x. size x < Suc (size left + size right) \<Longrightarrow> f x = g x"
    by (rule agreeD[OF assms])
  show ?thesis
    by (intro ext)
       (simp add: optimizeLogicalExpression_def base
        cong: node.case_cong option.case_cong list.case_cong if_cong hook_call_type.case_cong split del: if_split)
qed

lemma optimizeLogicalExpression_cong [fundef_cong]:
  assumes "\<And>x t. size x < Suc (size left + size right) \<Longrightarrow> f x t = g x t"
  shows "optimizeLogicalExpression f env operator left right s =
         optimizeLogicalExpression g env operator left right s"
proof -
  have "agree (Suc (size left + size right)) f g"
    by (rule agreeI) (rule assms)
  from optimizeLogicalExpression_agree[OF this] show ?thesis
    by simp
qed

lemma optimizeUnaryExpression_agree:
  assumes "agree (Suc (size argument)) f g"
  shows "optimizeUnaryExpression f env operator argument = optimizeUnaryExpression g env operator argument"
proof -
  have base: "\<And>x. size x < Suc (size argument) \<Longrightarrow> f x = g x"
    by (rule agreeD[OF assms])
  have h1: "\<And>ypath. Suc (size ypath) \<le> Suc (size argument) \<Longrightarrow>
      createDependency f env ypath = createDependency g env ypath"
    by (rule createDependency_agree[OF agree_mono[OF assms]])
  show ?thesis
    by (intro ext)
       (simp add: optimizeUnaryExpression_def base h1
        cong: node.case_cong option.case_cong list.case_cong if_cong hook_call_type.case_cong split del: if_split)
qed

lemma optimizeUnaryExpression_cong [fundef_cong]:
  assumes "\<And>x t. size x < Suc (size argument) \<Longrightarrow> f x t = g x t"
  shows "optimizeUnaryExpression f env operator argument s =
         optimizeUnaryExpression g env operator argument s"
proof -
  have "agree (Suc (size argument)) f g"
    by (rule agreeI) (rule assms)
  from optimizeUnaryExpression_agree[OF this] show ?thesis
    by simp
qed

lemma optimizeEffect_agree:
  assumes "agree (Suc (size callee + size_list size arguments)) f g"
  shows "optimizeEffect f env callee arguments = optimizeEffect g env callee arguments"
proof -
  have base: "\<And>x. size x < Suc (size callee + size_list size arguments) \<Longrightarrow> f x = g x"
    by (rule agreeD[OF assms])
  show ?thesis
    by (intro ext)
       (simp add: optimizeEffect_def base
        cong: node.case_cong option.case_cong list.case_cong if_cong hook_call_type.case_cong split del: if_split)
qed

lemma optimizeCallback_agree:
  assumes "agree (Suc (size callee + size_list size arguments)) f g"
  shows "optimizeCallback f env callee arguments = optimizeCallback g env callee arguments"
proof -
  have base: "\<And>x. size x < Suc (size callee + size_list size arguments) \<Longrightarrow> f x = g x"
    by (rule agreeD[OF assms])
  show ?thesis
    by (intro ext)
       (simp add: optimizeCallback_def base
        cong: node.case_cong option.case_cong list.case_cong if_cong hook_call_type.case_cong split del: if_split)
qed

lemma optimizeMemo_agree:
  assumes "agree (Suc (size callee + size_list size arguments)) f g"
  shows "optimizeMemo f env callee arguments = optimizeMemo g env callee arguments"
proof -
  have base: "\<And>x. size x < Suc (size callee + size_list size arguments) \<Longrightarrow> f x = g x"
    by (rule agreeD[OF assms])
  show ?thesis
    by (intro ext)
       (simp add: optimizeMemo_def base
        cong: node.case_cong option.case_cong list.case_cong if_cong hook_call_type.case_cong split del: if_split)
qed

lemma optimizeHookCallee_agree:
  assumes "agree (Suc (size callee)) f g"
  shows "optimizeHookCallee f env callee = optimizeHookCallee g env callee"
proof -
  have base: "\<And>x. size x < Suc (size callee) \<Longrightarrow> f x = g x"
    by (rule agreeD[OF assms])
  have h1: "\<And>ypath. Suc (size ypath) \<le> Suc (size callee) \<Longrightarrow>
      createDependency f env ypath = createDependency g env ypath"
    by (rule createDependency_agree[OF agree_mono[OF assms]])
  have h2: "\<And>yobj yprop. Suc (size yobj + size yprop) \<le> Suc (size callee) \<Longrightarrow>
      memoizeMemberExpression f env yobj yprop = memoizeMemberExpression g env yobj yprop"
    by (rule memoizeMemberExpression_agree[OF agree_mono[OF assms]])
  show ?thesis
    by (intro ext)
       (simp add: optimizeHookCallee_def base h1 h2
        cong: node.case_cong option.case_cong list.case_cong if_cong hook_call_type.case_cong split del: if_split)
qed

lemma optimizeSpreadElement_agree:
  assumes "agree (Suc (size argument)) f g"
  shows "optimizeSpreadElement f env argument = optimizeSpreadElement g env argument"
proof -
  have base: "\<And>x. size x < Suc (size argument) \<Longrightarrow> f x = g x"
    by (rule agreeD[OF assms])
  have h1: "\<And>ypath. Suc (size ypath) \<le> Suc (size argument) \<Longrightarrow>
      createDependency f env ypath = createDependency g env ypath"
    by (rule createDependency_agree[OF agree_mono[OF assms]])
  show ?thesis
    by (intro ext)
       (simp add: optimizeSpreadElement_def base h1
        cong: node.case_cong option.case_cong list.case_cong if_cong hook_call_type.case_cong split del: if_split)
qed

lemma optimizeHookArguments_agree:
  "agree (Suc (size_list size arguments)) f g \<Longrightarrow>
   optimizeHookArguments f env arguments = optimizeHookArguments g env arguments"
proof (induction arguments)
  case Nil
  show ?case by (intro ext) simp
next
  case (Cons el rest)
  have A: "agree (Suc (size_list size (el # rest))) f g"
    using Cons.prems by simp
  have IH: "optimizeHookArguments f env rest = optimizeHookArguments g env rest"
    by (rule Cons.IH[OF agree_mono[OF A]]) simp
  have base: "\<And>x. size x < Suc (size_list size (el # rest)) \<Longrightarrow> f x = g x"
    by (rule agreeD[OF A])
  have h1: "\<And>ypath. Suc (size ypath) \<le> Suc (size_list size (el # rest)) \<Longrightarrow>
      createDependency f env ypath = createDependency g env ypath"
    by (rule createDependency_agree[OF agree_mono[OF A]])
  have h2: "\<And>yargument. Suc (size yargument) \<le> Suc (size_list size (el # rest)) \<Longrightarrow>
      optimizeSpreadElement f env yargument = optimizeSpreadElement g env yargument"
    by (rule optimizeSpreadElement_agree[OF agree_mono[OF A]])
  show ?case
    by (intro ext)
       (simp add: IH base h1 h2
        cong: node.case_cong option.case_cong list.case_cong if_cong hook_call_type.case_cong split del: if_split)
qed

lemma optimizeCustomHookCall_agree:
  assumes "agree (Suc (size callee + size_list size arguments)) f g"
  shows "optimizeCustomHookCall f env callee arguments = optimizeCustomHookCall g env callee arguments"
proof -
  have base: "\<And>x. size x < Suc (size callee + size_list size arguments) \<Longrightarrow> f x = g x"
    by (rule agreeD[OF assms])
  have h1: "\<And>ycallee. Suc (size ycallee) \<le> Suc (size callee + size_list size arguments) \<Longrightarrow>
      optimizeHookCallee f env ycallee = optimizeHookCallee g env ycallee"
    by (rule optimizeHookCallee_agree[OF agree_mono[OF assms]])
  have h2: "\<And>yarguments. Suc (size_list size yarguments) \<le> Suc (size callee + size_list size arguments) \<Longrightarrow>
      optimizeHookArguments f env yarguments = optimizeHookArguments g env yarguments"
    by (rule optimizeHookArguments_agree[OF agree_mono[OF assms]])
  show ?thesis
    by (intro ext)
       (simp add: optimizeCustomHookCall_def base h1 h2
        cong: node.case_cong option.case_cong list.case_cong if_cong hook_call_type.case_cong split del: if_split)
qed

lemma optimizeCallExpression_agree:
  assumes "agree (Suc (size callee + size_list size arguments)) f g"
  shows "optimizeCallExpression f env callee arguments = optimizeCallExpression g env callee arguments"
proof -
  have base: "\<And>x. size x < Suc (size callee + size_list size arguments) \<Longrightarrow> f x = g x"
    by (rule agreeD[OF assms])
  have h1: "\<And>ycallee yarguments. Suc (size ycallee + size_list size yarguments) \<le> Suc (size callee + size_list size arguments) \<Longrightarrow>
      optimizeCallback f env ycallee yarguments = optimizeCallback g env ycallee yarguments"
    by (rule optimizeCallback_agree[OF agree_mono[OF assms]])
  have h2: "\<And>ycallee yarguments. Suc (size ycallee + size_list size yarguments) \<le> Suc (size callee + size_list size arguments) \<Longrightarrow>
      optimizeEffect f env ycallee yarguments = optimizeEffect g env ycallee yarguments"
    by (rule optimizeEffect_agree[OF agree_mono[OF assms]])
  have h3: "\<And>ycallee yarguments. Suc (size ycallee + size_list size yarguments) \<le> Suc (size callee + size_list size arguments) \<Longrightarrow>
      optimizeMemo f env ycallee yarguments = optimizeMemo g env ycallee yarguments"
    by (rule optimizeMemo_agree[OF agree_mono[OF assms]])
  have h4: "\<And>ycallee yarguments. Suc (size ycallee + size_list size yarguments) \<le> Suc (size callee + size_list size arguments) \<Longrightarrow>
      optimizeCustomHookCall f env ycallee yarguments = optimizeCustomHookCall g env ycallee yarguments"
    by (rule optimizeCustomHookCall_agree[OF agree_mono[OF assms]])
  show ?thesis
    by (intro ext)
       (simp add: optimizeCallExpression_def base h1 h2 h3 h4
        cong: node.case_cong option.case_cong list.case_cong if_cong hook_call_type.case_cong split del: if_split)
qed

lemma optimizeCallExpression_cong [fundef_cong]:
  assumes "\<And>x t. size x < Suc (size callee + size_list size arguments) \<Longrightarrow> f x t = g x t"
  shows "optimizeCallExpression f env callee arguments s =
         optimizeCallExpression g env callee arguments s"
proof -
  have "agree (Suc (size callee + size_list size arguments)) f g"
    by (rule agreeI) (rule assms)
  from optimizeCallExpression_agree[OF this] show ?thesis
    by simp
qed

lemma optimizeLVal_agree:
  assumes "agree (Suc (size path)) f g"
  shows "optimizeLVal f env path = optimizeLVal g env path"
proof -
  have base: "\<And>x. size x < Suc (size path) \<Longrightarrow> f x = g x"
    by (rule agreeD[OF assms])
  have h1: "\<And>yobj yprop. Suc (size yobj + size yprop) \<le> Suc (size path) \<Longrightarrow>
      memoizeMemberExpression f env yobj yprop = memoizeMemberExpression g env yobj yprop"
    by (rule memoizeMemberExpression_agree[OF agree_mono[OF assms]])
  show ?thesis
    by (intro ext)
       (simp add: optimizeLVal_def base h1
        cong: node.case_cong option.case_cong list.case_cong if_cong hook_call_type.case_cong split del: if_split)
qed

lemma optimizeAssignmentExpression_agree:
  assumes "agree (Suc (size left + size right)) f g"
  shows "optimizeAssignmentExpression f env operator left right = optimizeAssignmentExpression g env operator left right"
proof -
  have base: "\<And>x. size x < Suc (size left + size right) \<Longrightarrow> f x = g x"
    by (rule agreeD[OF assms])
  have h1: "\<And>ypath. Suc (size ypath) \<le> Suc (size left + size right) \<Longrightarrow>
      optimizeLVal f env ypath = optimizeLVal g env ypath"
    by (rule optimizeLVal_agree[OF agree_mono[OF assms]])
  have h2: "\<And>ypath. Suc (size ypath) \<le> Suc (size left + size right) \<Longrightarrow>
      createDependency f env ypath = createDependency g env ypath"
    by (rule createDependency_agree[OF agree_mono[OF assms]])
  show ?thesis
    by (intro ext)
       (simp add: optimizeAssignmentExpression_def base h1 h2
        cong: node.case_cong option.case_cong list.case_cong if_cong hook_call_type.case_cong split del: if_split)
qed

lemma optimizeAssignmentExpression_cong [fundef_cong]:
  assumes "\<And>x t. size x < Suc (size left + size right) \<Longrightarrow> f x t = g x t"
  shows "optimizeAssignmentExpression f env operator left right s =
         optimizeAssignmentExpression g env operator left right s"
proof -
  have "agree (Suc (size left + size right)) f g"
    by (rule agreeI) (rule assms)
  from optimizeAssignmentExpression_agree[OF this] show ?thesis
    by simp
qed

lemma optimizeArrayElements_agree:
  "agree (Suc (size_list (size_option size) elements)) f g \<Longrightarrow>
   optimizeArrayElements f env elements = optimizeArrayElements g env elements"
proof (induction elements)
  case Nil
  show ?case by (intro ext) simp
next
  case (Cons el rest)
  have A: "agree (Suc (size_list (size_option size) (el # rest))) f g"
    using Cons.prems by simp
  have IH: "optimizeArrayElements f env rest = optimizeArrayElements g env rest"
    by (rule Cons.IH[OF agree_mono[OF A]]) simp
  have base: "\<And>x. size x < Suc (size_list (size_option size) (el # rest)) \<Longrightarrow> f x = g x"
    by (rule agreeD[OF A])
  have h1: "\<And>ypath. Suc (size ypath) \<le> Suc (size_list (size_option size) (el # rest)) \<Longrightarrow>
      createDependency f env ypath = createDependency g env ypath"
    by (rule createDependency_agree[OF agree_mono[OF A]])
  have h2: "\<And>yargument. Suc (size yargument) \<le> Suc (size_list (size_option size) (el # rest)) \<Longrightarrow>
      optimizeSpreadElement f env yargument = optimizeSpreadElement g env yargument"
    by (rule optimizeSpreadElement_agree[OF agree_mono[OF A]])
  show ?case
    by (intro ext)
       (simp add: IH base h1 h2
        cong: node.case_cong option.case_cong list.case_cong if_cong hook_call_type.case_cong split del: if_split)
qed

lemma optimizeArrayExpression_agree:
  assumes "agree (Suc (size_list (size_option size) elements)) f g"
  shows "optimizeArrayExpression f env tuple elements = optimizeArrayExpression g env tuple elements"
proof -
  have base: "\<And>x. size x < Suc (size_list (size_option size) elements) \<Longrightarrow> f x = g x"
    by (rule agreeD[OF assms])
  have h1: "\<And>yelements. Suc (size_list (size_option size) yelements) \<le> Suc (size_list (size_option size) elements) \<Longrightarrow>
      optimizeArrayElements f env yelements = optimizeArrayElements g env yelements"
    by (rule optimizeArrayElements_agree[OF agree_mono[OF assms]])
  show ?thesis
    by (intro ext)
       (simp add: optimizeArrayExpression_def base h1
        cong: node.case_cong option.case_cong list.case_cong if_cong hook_call_type.case_cong split del: if_split)
qed

lemma optimizeArrayExpression_cong [fundef_cong]:
  assumes "\<And>x t. size x < Suc (size_list (size_option size) elements) \<Longrightarrow> f x t = g x t"
  shows "optimizeArrayExpression f env tuple elements s =
         optimizeArrayExpression g env tuple elements s"
proof -
  have "agree (Suc (size_list (size_option size) elements)) f g"
    by (rule agreeI) (rule assms)
  from optimizeArrayExpression_agree[OF this] show ?thesis
    by simp
qed

lemma optimizeObjectProperty_agree:
  assumes "agree (Suc (size key + size v)) f g"
  shows "optimizeObjectProperty f env key v = optimizeObjectProperty g env key v"
proof -
  have base: "\<And>x. size x < Suc (size key + size v) \<Longrightarrow> f x = g x"
    by (rule agreeD[OF assms])
  have h1: "\<And>ypath. Suc (size ypath) \<le> Suc (size key + size v) \<Longrightarrow>
      createDependency f env ypath = createDependency g env ypath"
    by (rule createDependency_agree[OF agree_mono[OF assms]])
  show ?thesis
    by (intro ext)
       (simp add: optimizeObjectProperty_def base h1
        cong: node.case_cong option.case_cong list.case_cong if_cong hook_call_type.case_cong split del: if_split)
qed

lemma optimizeObjectProperties_agree:
  "agree (Suc (size_list size properties)) f g \<Longrightarrow>
   optimizeObjectProperties f env path properties = optimizeObjectProperties g env path properties"
proof (induction properties)
  case Nil
  show ?case by (intro ext) simp
next
  case (Cons el rest)
  have A: "agree (Suc (size_list size (el # rest))) f g"
    using Cons.prems by simp
  have IH: "optimizeObjectProperties f env path rest = optimizeObjectProperties g env path rest"
    by (rule Cons.IH[OF agree_mono[OF A]]) simp
  have base: "\<And>x. size x < Suc (size_list size (el # rest)) \<Longrightarrow> f x = g x"
    by (rule agreeD[OF A])
  have h1: "\<And>ykey yv. Suc (size ykey + size yv) \<le> Suc (size_list size (el # rest)) \<Longrightarrow>
      optimizeObjectProperty f env ykey yv = optimizeObjectProperty g env ykey yv"
    by (rule optimizeObjectProperty_agree[OF agree_mono[OF A]])
  have h2: "\<And>yargument. Suc (size yargument) \<le> Suc (size_list size (el # rest)) \<Longrightarrow>
      optimizeSpreadElement f env yargument = optimizeSpreadElement g env yargument"
    by (rule optimizeSpreadElement_agree[OF agree_mono[OF A]])
  show ?case
    by (intro ext)
       (simp add: IH base h1 h2
        cong: node.case_cong option.case_cong list.case_cong if_cong hook_call_type.case_cong split del: if_split)
qed

lemma optimizeObjectExpression_agree:
  assumes "agree (Suc (size_list size properties)) f g"
  shows "optimizeObjectExpression f env isRecord properties = optimizeObjectExpression g env isRecord properties"
proof -
  have base: "\<And>x. size x < Suc (size_list size properties) \<Longrightarrow> f x = g x"
    by (rule agreeD[OF assms])
  have h1: "\<And>ypath yproperties. Suc (size_list size yproperties) \<le> Suc (size_list size properties) \<Longrightarrow>
      optimizeObjectProperties f env ypath yproperties = optimizeObjectProperties g env ypath yproperties"
    by (rule optimizeObjectProperties_agree[OF agree_mono[OF assms]])
  show ?thesis
    by (intro ext)
       (simp add: optimizeObjectExpression_def base h1
        cong: node.case_cong option.case_cong list.case_cong if_cong hook_call_type.case_cong split del: if_split)
qed

lemma optimizeObjectExpression_cong [fundef_cong]:
  assumes "\<And>x t. size x < Suc (size_list size properties) \<Longrightarrow> f x t = g x t"
  shows "optimizeObjectExpression f env isRecord properties s =
         optimizeObjectExpression g env isRecord properties s"
proof -
  have "agree (Suc (size_list size properties)) f g"
    by (rule agreeI) (rule assms)
  from optimizeObjectExpression_agree[OF this] show ?thesis
    by simp
qed

lemma optimizeNewExpression_agree:
  assumes "agree (Suc (size callee + size_list size arguments)) f g"
  shows "optimizeNewExpression f env callee arguments = optimizeNewExpression g env callee arguments"
proof -
  have base: "\<And>x. size x < Suc (size callee + size_list size arguments) \<Longrightarrow> f x = g x"
    by (rule agreeD[OF assms])
  have h1: "\<And>ypath. Suc (size ypath) \<le> Suc (size callee + size_list size arguments) \<Longrightarrow>
      createDependency f env ypath = createDependency g env ypath"
    by (rule createDependency_agree[OF agree_mono[OF assms]])
  have h2: "\<And>yarguments. Suc (size_list size yarguments) \<le> Suc (size callee + size_list size arguments) \<Longrightarrow>
      optimizeHookArguments f env yarguments = optimizeHookArguments g env yarguments"
    by (rule optimizeHookArguments_agree[OF agree_mono[OF assms]])
  show ?thesis
    by (intro ext)
       (simp add: optimizeNewExpression_def base h1 h2
        cong: node.case_cong option.case_cong list.case_cong if_cong hook_call_type.case_cong split del: if_split)
qed

lemma optimizeNewExpression_cong [fundef_cong]:
  assumes "\<And>x t. size x < Suc (size callee + size_list size arguments) \<Longrightarrow> f x t = g x t"
  shows "optimizeNewExpression f env callee arguments s =
         optimizeNewExpression g env callee arguments s"
proof -
  have "agree (Suc (size callee + size_list size arguments)) f g"
    by (rule agreeI) (rule assms)
  from optimizeNewExpression_agree[OF this] show ?thesis
    by simp
qed

lemma optimizeSequenceExpressions_agree:
  "agree (Suc (size_list size expressions)) f g \<Longrightarrow>
   optimizeSequenceExpressions f env expressions = optimizeSequenceExpressions g env expressions"
proof (induction expressions)
  case Nil
  show ?case by (intro ext) simp
next
  case (Cons el rest)
  have A: "agree (Suc (size_list size (el # rest))) f g"
    using Cons.prems by simp
  have IH: "optimizeSequenceExpressions f env rest = optimizeSequenceExpressions g env rest"
    by (rule Cons.IH[OF agree_mono[OF A]]) simp
  have base: "\<And>x. size x < Suc (size_list size (el # rest)) \<Longrightarrow> f x = g x"
    by (rule agreeD[OF A])
  show ?case
    by (intro ext)
       (simp add: IH base
        cong: node.case_cong option.case_cong list.case_cong if_cong hook_call_type.case_cong split del: if_split)
qed

lemma optimizeSequenceExpression_agree:
  assumes "agree (Suc (size_list size expressions)) f g"
  shows "optimizeSequenceExpression f env expressions = optimizeSequenceExpression g env expressions"
proof -
  have base: "\<And>x. size x < Suc (size_list size expressions) \<Longrightarrow> f x = g x"
    by (rule agreeD[OF assms])
  have h1: "\<And>yexpressions. Suc (size_list size yexpressions) \<le> Suc (size_list size expressions) \<Longrightarrow>
      optimizeSequenceExpressions f env yexpressions = optimizeSequenceExpressions g env yexpressions"
    by (rule optimizeSequenceExpressions_agree[OF agree_mono[OF assms]])
  show ?thesis
    by (intro ext)
       (simp add: optimizeSequenceExpression_def base h1
        cong: node.case_cong option.case_cong list.case_cong if_cong hook_call_type.case_cong split del: if_split)
qed

lemma optimizeSequenceExpression_cong [fundef_cong]:
  assumes "\<And>x t. size x < Suc (size_list size expressions) \<Longrightarrow> f x t = g x t"
  shows "optimizeSequenceExpression f env expressions s =
         optimizeSequenceExpression g env expressions s"
proof -
  have "agree (Suc (size_list size expressions)) f g"
    by (rule agreeI) (rule assms)
  from optimizeSequenceExpression_agree[OF this] show ?thesis
    by simp
qed

lemma memoizeTemplateExpressions_agree:
  "agree (Suc (size_list size expressions)) f g \<Longrightarrow>
   memoizeTemplateExpressions f env expressions = memoizeTemplateExpressions g env expressions"
proof (induction expressions)
  case Nil
  show ?case by (intro ext) simp
next
  case (Cons el rest)
  have A: "agree (Suc (size_list size (el # rest))) f g"
    using Cons.prems by simp
  have IH: "memoizeTemplateExpressions f env rest = memoizeTemplateExpressions g env rest"
    by (rule Cons.IH[OF agree_mono[OF A]]) simp
  have base: "\<And>x. size x < Suc (size_list size (el # rest)) \<Longrightarrow> f x = g x"
    by (rule agreeD[OF A])
  have h1: "\<And>ypath. Suc (size ypath) \<le> Suc (size_list size (el # rest)) \<Longrightarrow>
      createDependency f env ypath = createDependency g env ypath"
    by (rule createDependency_agree[OF agree_mono[OF A]])
  show ?case
    by (intro ext)
       (simp add: IH base h1
        cong: node.case_cong option.case_cong list.case_cong if_cong hook_call_type.case_cong split del: if_split)
qed

lemma memoizeTemplateLiteral_agree:
  assumes "agree (Suc (size_list size expressions)) f g"
  shows "memoizeTemplateLiteral f env quasis expressions = memoizeTemplateLiteral g env quasis expressions"
proof -
  have base: "\<And>x. size x < Suc (size_list size expressions) \<Longrightarrow> f x = g x"
    by (rule agreeD[OF assms])
  have h1: "\<And>yexpressions. Suc (size_list size yexpressions) \<le> Suc (size_list size expressions) \<Longrightarrow>
      memoizeTemplateExpressions f env yexpressions = memoizeTemplateExpressions g env yexpressions"
    by (rule memoizeTemplateExpressions_agree[OF agree_mono[OF assms]])
  show ?thesis
    by (intro ext)
       (simp add: memoizeTemplateLiteral_def base h1
        cong: node.case_cong option.case_cong list.case_cong if_cong hook_call_type.case_cong split del: if_split)
qed

lemma optimizeTemplateLiteral_agree:
  assumes "agree (Suc (size_list size expressions)) f g"
  shows "optimizeTemplateLiteral f env quasis expressions = optimizeTemplateLiteral g env quasis expressions"
proof -
  have base: "\<And>x. size x < Suc (size_list size expressions) \<Longrightarrow> f x = g x"
    by (rule agreeD[OF assms])
  have h1: "\<And>yquasis yexpressions. Suc (size_list size yexpressions) \<le> Suc (size_list size expressions) \<Longrightarrow>
      memoizeTemplateLiteral f env yquasis yexpressions = memoizeTemplateLiteral g env yquasis yexpressions"
    by (rule memoizeTemplateLiteral_agree[OF agree_mono[OF assms]])
  show ?thesis
    by (intro ext)
       (simp add: optimizeTemplateLiteral_def base h1
        cong: node.case_cong option.case_cong list.case_cong if_cong hook_call_type.case_cong split del: if_split)
qed

lemma optimizeTemplateLiteral_cong [fundef_cong]:
  assumes "\<And>x t. size x < Suc (size_list size expressions) \<Longrightarrow> f x t = g x t"
  shows "optimizeTemplateLiteral f env quasis expressions s =
         optimizeTemplateLiteral g env quasis expressions s"
proof -
  have "agree (Suc (size_list size expressions)) f g"
    by (rule agreeI) (rule assms)
  from optimizeTemplateLiteral_agree[OF this] show ?thesis
    by simp
qed

lemma optimizedTaggedTemplateExpression_agree:
  assumes "agree (Suc (size tag + size_list size expressions)) f g"
  shows "optimizedTaggedTemplateExpression f env tag quasis expressions = optimizedTaggedTemplateExpression g env tag quasis expressions"
proof -
  have base: "\<And>x. size x < Suc (size tag + size_list size expressions) \<Longrightarrow> f x = g x"
    by (rule agreeD[OF assms])
  have h1: "\<And>ypath. Suc (size ypath) \<le> Suc (size tag + size_list size expressions) \<Longrightarrow>
      createDependency f env ypath = createDependency g env ypath"
    by (rule createDependency_agree[OF agree_mono[OF assms]])
  have h2: "\<And>yquasis yexpressions. Suc (size_list size yexpressions) \<le> Suc (size tag + size_list size expressions) \<Longrightarrow>
      memoizeTemplateLiteral f env yquasis yexpressions = memoizeTemplateLiteral g env yquasis yexpressions"
    by (rule memoizeTemplateLiteral_agree[OF agree_mono[OF assms]])
  show ?thesis
    by (intro ext)
       (simp add: optimizedTaggedTemplateExpression_def base h1 h2
        cong: node.case_cong option.case_cong list.case_cong if_cong hook_call_type.case_cong split del: if_split)
qed

lemma optimizedTaggedTemplateExpression_cong [fundef_cong]:
  assumes "\<And>x t. size x < Suc (size tag + size_list size expressions) \<Longrightarrow> f x t = g x t"
  shows "optimizedTaggedTemplateExpression f env tag quasis expressions s =
         optimizedTaggedTemplateExpression g env tag quasis expressions s"
proof -
  have "agree (Suc (size tag + size_list size expressions)) f g"
    by (rule agreeI) (rule assms)
  from optimizedTaggedTemplateExpression_agree[OF this] show ?thesis
    by simp
qed

lemma memoizeJSXExpressionContainer_agree:
  assumes "agree (Suc (size e)) f g"
  shows "memoizeJSXExpressionContainer f env e = memoizeJSXExpressionContainer g env e"
proof -
  have base: "\<And>x. size x < Suc (size e) \<Longrightarrow> f x = g x"
    by (rule agreeD[OF assms])
  have h1: "\<And>ypath. Suc (size ypath) \<le> Suc (size e) \<Longrightarrow>
      createDependency f env ypath = createDependency g env ypath"
    by (rule createDependency_agree[OF agree_mono[OF assms]])
  show ?thesis
    by (intro ext)
       (simp add: memoizeJSXExpressionContainer_def base h1
        cong: node.case_cong option.case_cong list.case_cong if_cong hook_call_type.case_cong split del: if_split)
qed

lemma memoizeJSXSpreadChild_agree:
  assumes "agree (Suc (size e)) f g"
  shows "memoizeJSXSpreadChild f env e = memoizeJSXSpreadChild g env e"
proof -
  have base: "\<And>x. size x < Suc (size e) \<Longrightarrow> f x = g x"
    by (rule agreeD[OF assms])
  have h1: "\<And>ypath. Suc (size ypath) \<le> Suc (size e) \<Longrightarrow>
      createDependency f env ypath = createDependency g env ypath"
    by (rule createDependency_agree[OF agree_mono[OF assms]])
  show ?thesis
    by (intro ext)
       (simp add: memoizeJSXSpreadChild_def base h1
        cong: node.case_cong option.case_cong list.case_cong if_cong hook_call_type.case_cong split del: if_split)
qed

lemma memoizeJSXChildrenLoop_agree:
  "agree (Suc (size_list size children)) f g \<Longrightarrow>
   memoizeJSXChildrenLoop f env children = memoizeJSXChildrenLoop g env children"
proof (induction children)
  case Nil
  show ?case by (intro ext) simp
next
  case (Cons el rest)
  have A: "agree (Suc (size_list size (el # rest))) f g"
    using Cons.prems by simp
  have IH: "memoizeJSXChildrenLoop f env rest = memoizeJSXChildrenLoop g env rest"
    by (rule Cons.IH[OF agree_mono[OF A]]) simp
  have base: "\<And>x. size x < Suc (size_list size (el # rest)) \<Longrightarrow> f x = g x"
    by (rule agreeD[OF A])
  have h1: "\<And>ypath. Suc (size ypath) \<le> Suc (size_list size (el # rest)) \<Longrightarrow>
      createDependency f env ypath = createDependency g env ypath"
    by (rule createDependency_agree[OF agree_mono[OF A]])
  have h2: "\<And>ye. Suc (size ye) \<le> Suc (size_list size (el # rest)) \<Longrightarrow>
      memoizeJSXExpressionContainer f env ye = memoizeJSXExpressionContainer g env ye"
    by (rule memoizeJSXExpressionContainer_agree[OF agree_mono[OF A]])
  have h3: "\<And>ye. Suc (size ye) \<le> Suc (size_list size (el # rest)) \<Longrightarrow>
      memoizeJSXSpreadChild f env ye = memoizeJSXSpreadChild g env ye"
    by (rule memoizeJSXSpreadChild_agree[OF agree_mono[OF A]])
  show ?case
    by (intro ext)
       (simp add: IH base h1 h2 h3
        cong: node.case_cong option.case_cong list.case_cong if_cong hook_call_type.case_cong split del: if_split)
qed

lemma memoizeJSXChildren_agree:
  assumes "agree (Suc (size_list size children)) f g"
  shows "memoizeJSXChildren f env children = memoizeJSXChildren g env children"
proof -
  have base: "\<And>x. size x < Suc (size_list size children) \<Longrightarrow> f x = g x"
    by (rule agreeD[OF assms])
  have h1: "\<And>ychildren. Suc (size_list size ychildren) \<le> Suc (size_list size children) \<Longrightarrow>
      memoizeJSXChildrenLoop f env ychildren = memoizeJSXChildrenLoop g env ychildren"
    by (rule memoizeJSXChildrenLoop_agree[OF agree_mono[OF assms]])
  show ?thesis
    by (intro ext)
       (simp add: memoizeJSXChildren_def base h1
        cong: node.case_cong option.case_cong list.case_cong if_cong hook_call_type.case_cong split del: if_split)
qed

lemma optimizeJSXFragment_agree:
  assumes "agree (Suc (size_list size children)) f g"
  shows "optimizeJSXFragment f env children = optimizeJSXFragment g env children"
proof -
  have base: "\<And>x. size x < Suc (size_list size children) \<Longrightarrow> f x = g x"
    by (rule agreeD[OF assms])
  have h1: "\<And>ychildren. Suc (size_list size ychildren) \<le> Suc (size_list size children) \<Longrightarrow>
      memoizeJSXChildren f env ychildren = memoizeJSXChildren g env ychildren"
    by (rule memoizeJSXChildren_agree[OF agree_mono[OF assms]])
  show ?thesis
    by (intro ext)
       (simp add: optimizeJSXFragment_def base h1
        cong: node.case_cong option.case_cong list.case_cong if_cong hook_call_type.case_cong split del: if_split)
qed

lemma optimizeJSXFragment_cong [fundef_cong]:
  assumes "\<And>x t. size x < Suc (size_list size children) \<Longrightarrow> f x t = g x t"
  shows "optimizeJSXFragment f env children s =
         optimizeJSXFragment g env children s"
proof -
  have "agree (Suc (size_list size children)) f g"
    by (rule agreeI) (rule assms)
  from optimizeJSXFragment_agree[OF this] show ?thesis
    by simp
qed

lemma optimizeJSXAttribute_agree:
  assumes "agree (Suc (size_option size v)) f g"
  shows "optimizeJSXAttribute f env name v = optimizeJSXAttribute g env name v"
proof -
  have base: "\<And>x. size x < Suc (size_option size v) \<Longrightarrow> f x = g x"
    by (rule agreeD[OF assms])
  have h1: "\<And>ypath. Suc (size ypath) \<le> Suc (size_option size v) \<Longrightarrow>
      createDependency f env ypath = createDependency g env ypath"
    by (rule createDependency_agree[OF agree_mono[OF assms]])
  have h2: "\<And>ye. Suc (size ye) \<le> Suc (size_option size v) \<Longrightarrow>
      memoizeJSXExpressionContainer f env ye = memoizeJSXExpressionContainer g env ye"
    by (rule memoizeJSXExpressionContainer_agree[OF agree_mono[OF assms]])
  show ?thesis
    by (intro ext)
       (simp add: optimizeJSXAttribute_def base h1 h2
        cong: node.case_cong option.case_cong list.case_cong if_cong hook_call_type.case_cong split del: if_split)
qed

lemma optimizeJSXAttributesLoop_agree:
  "agree (Suc (size_list size attributes)) f g \<Longrightarrow>
   optimizeJSXAttributesLoop f env attributes = optimizeJSXAttributesLoop g env attributes"
proof (induction attributes)
  case Nil
  show ?case by (intro ext) simp
next
  case (Cons el rest)
  have A: "agree (Suc (size_list size (el # rest))) f g"
    using Cons.prems by simp
  have IH: "optimizeJSXAttributesLoop f env rest = optimizeJSXAttributesLoop g env rest"
    by (rule Cons.IH[OF agree_mono[OF A]]) simp
  have base: "\<And>x. size x < Suc (size_list size (el # rest)) \<Longrightarrow> f x = g x"
    by (rule agreeD[OF A])
  have h1: "\<And>yname yv. Suc (size_option size yv) \<le> Suc (size_list size (el # rest)) \<Longrightarrow>
      optimizeJSXAttribute f env yname yv = optimizeJSXAttribute g env yname yv"
    by (rule optimizeJSXAttribute_agree[OF agree_mono[OF A]])
  have h2: "\<And>ypath. Suc (size ypath) \<le> Suc (size_list size (el # rest)) \<Longrightarrow>
      createDependency f env ypath = createDependency g env ypath"
    by (rule createDependency_agree[OF agree_mono[OF A]])
  show ?case
    by (intro ext)
       (simp add: IH base h1 h2
        cong: node.case_cong option.case_cong list.case_cong if_cong hook_call_type.case_cong split del: if_split)
qed

lemma optimizeJSXAttributes_agree:
  assumes "agree (Suc (size_list size attributes)) f g"
  shows "optimizeJSXAttributes f env attributes = optimizeJSXAttributes g env attributes"
proof -
  have base: "\<And>x. size x < Suc (size_list size attributes) \<Longrightarrow> f x = g x"
    by (rule agreeD[OF assms])
  have h1: "\<And>yattributes. Suc (size_list size yattributes) \<le> Suc (size_list size attributes) \<Longrightarrow>
      optimizeJSXAttributesLoop f env yattributes = optimizeJSXAttributesLoop g env yattributes"
    by (rule optimizeJSXAttributesLoop_agree[OF agree_mono[OF assms]])
  show ?thesis
    by (intro ext)
       (simp add: optimizeJSXAttributes_def base h1
        cong: node.case_cong option.case_cong list.case_cong if_cong hook_call_type.case_cong split del: if_split)
qed

lemma optimizeJSXElement_agree:
  assumes "agree (Suc (size_list size attributes + size_list size children)) f g"
  shows "optimizeJSXElement f env name attributes children = optimizeJSXElement g env name attributes children"
proof -
  have base: "\<And>x. size x < Suc (size_list size attributes + size_list size children) \<Longrightarrow> f x = g x"
    by (rule agreeD[OF assms])
  have h1: "\<And>yattributes. Suc (size_list size yattributes) \<le> Suc (size_list size attributes + size_list size children) \<Longrightarrow>
      optimizeJSXAttributes f env yattributes = optimizeJSXAttributes g env yattributes"
    by (rule optimizeJSXAttributes_agree[OF agree_mono[OF assms]])
  have h2: "\<And>ychildren. Suc (size_list size ychildren) \<le> Suc (size_list size attributes + size_list size children) \<Longrightarrow>
      memoizeJSXChildren f env ychildren = memoizeJSXChildren g env ychildren"
    by (rule memoizeJSXChildren_agree[OF agree_mono[OF assms]])
  show ?thesis
    by (intro ext)
       (simp add: optimizeJSXElement_def base h1 h2
        cong: node.case_cong option.case_cong list.case_cong if_cong hook_call_type.case_cong split del: if_split)
qed

lemma optimizeJSXElement_cong [fundef_cong]:
  assumes "\<And>x t. size x < Suc (size_list size attributes + size_list size children) \<Longrightarrow> f x t = g x t"
  shows "optimizeJSXElement f env name attributes children s =
         optimizeJSXElement g env name attributes children s"
proof -
  have "agree (Suc (size_list size attributes + size_list size children)) f g"
    by (rule agreeI) (rule assms)
  from optimizeJSXElement_agree[OF this] show ?thesis
    by simp
qed

text \<open>\<open>path.get('expression')\<close> of a nesting wrapper.\<close>

fun nestedExpression :: "node \<Rightarrow> node" where
  "nestedExpression (NestedExpression _ e) = e"
| "nestedExpression e = e"

lemma size_nestedExpression [termination_simp]:
  "isNestedExpression path \<Longrightarrow> size (nestedExpression path) < size path"
  by (cases path) simp_all

function optimizeExpression :: "env \<Rightarrow> node \<Rightarrow> optimizer \<Rightarrow> optimized \<times> optimizer" where
  "optimizeExpression env path s =
     (if shouldSkipNode env path then (optimizedExpr path NoDeps True, s)
      else if isNestedExpression path then optimizeExpression env (nestedExpression path) s
      else if isLiteral path \<and> \<not> isTemplateLiteral path
      then (optimizedExpr path NoDeps True, s)
      else (let (c, s0) = isConstant env path s
            in if c then createMemo path (Flag True) TMemo s0
               else (case path of
                      Identifier i \<Rightarrow> optimizeIdentifier env i s0
                    | MemberExpression obj prop computed \<Rightarrow>
                        optimizeMemberExpression (optimizeExpression env) env obj prop computed s0
                    | ConditionalExpression test consequent alternate \<Rightarrow>
                        optimizeConditionalExpression (optimizeExpression env) env test consequent alternate s0
                    | BinaryExpression operator left right \<Rightarrow>
                        optimizeBinaryExpression (optimizeExpression env) env operator left right s0
                    | LogicalExpression operator left right \<Rightarrow>
                        optimizeLogicalExpression (optimizeExpression env) env operator left right s0
                    | UnaryExpression operator argument \<Rightarrow>
                        optimizeUnaryExpression (optimizeExpression env) env operator argument s0
                    | CallExpression callee arguments \<Rightarrow>
                        optimizeCallExpression (optimizeExpression env) env callee arguments s0
                    | FunctionExpression _ \<Rightarrow> optimizeFunctionExpression env path s0
                    | ArrowFunctionExpression _ \<Rightarrow> optimizeFunctionExpression env path s0
                    | AssignmentExpression operator left right \<Rightarrow>
                        optimizeAssignmentExpression (optimizeExpression env) env operator left right s0
                    | ArrayExpression elements \<Rightarrow>
                        optimizeArrayExpression (optimizeExpression env) env False elements s0
                    | TupleExpression elements \<Rightarrow>
                        optimizeArrayExpression (optimizeExpression env) env True elements s0
                    | ObjectExpression properties \<Rightarrow>
                        optimizeObjectExpression (optimizeExpression env) env False properties s0
                    | RecordExpression properties \<Rightarrow>
                        optimizeObjectExpression (optimizeExpression env) env True properties s0
                    | NewExpression callee arguments \<Rightarrow>
                        optimizeNewExpression (optimizeExpression env) env callee arguments s0
                    | SequenceExpression expressions \<Rightarrow>
                        optimizeSequenceExpression (optimizeExpression env) env expressions s0
                    | TaggedTemplateExpression tag quasis expressions \<Rightarrow>
                        optimizedTaggedTemplateExpression (optimizeExpression env) env tag quasis expressions s0
                    | TemplateLiteral quasis expressions \<Rightarrow>
                        optimizeTemplateLiteral (optimizeExpression env) env quasis expressions s0
                    | JSXFragment children \<Rightarrow> optimizeJSXFragment (optimizeExpression env) env children s0
                    | JSXElement name attributes children \<Rightarrow>
                        optimizeJSXElement (optimizeExpression env) env name attributes children s0
                    | _ \<Rightarrow> (optimizedExpr path NoDeps True, s0))))"
  by pat_completeness fast

termination
  by (relation "measure (\<lambda>(env, path, s). size path)") (auto simp: size_nestedExpression)

declare optimizeExpression.simps [simp del]

section \<open>The statement walk\<close>

text \<open>
  As for expressions, the methods reach sub-statements through
  \<open>this.optimizeStatement\<close>, their first parameter. A method that replaces a part of
  the statement at its path (\<open>replaceWith\<close>) returns the new part; the caller, which
  pushes \<open>path.node\<close> afterwards, rebuilds the node from it.
\<close>

type_synonym statement_walk = "stmt \<Rightarrow> bool \<Rightarrow> optimizer \<Rightarrow> optimizer"

text \<open>\<open>child.getLoopMemoDeclaration()\<close> for a child of the current scope.\<close>

definition childLoopMemoDeclaration :: "scope \<Rightarrow> optimizer \<Rightarrow> (stmt option \<times> scope) \<times> optimizer" where
  "childLoopMemoDeclaration child s =
     (let (d, child', ps, u) = getLoopMemoDeclaration child (scope s # parents s) (uid s)
      in ((d, child'),
          (case ps of
             p # rest \<Rightarrow> s\<lparr>scope := p, parents := rest, uid := u\<rparr>
           | [] \<Rightarrow> s\<lparr>uid := u\<rparr>)))"

definition optimizeExpressionStatement :: "env \<Rightarrow> node \<Rightarrow> optimizer \<Rightarrow> node \<times> optimizer" where
  "optimizeExpressionStatement env e s =
     (let (optimized, s1) = optimizeExpression env e s in (expr optimized, s1))"

fun optimizeVariableDeclarators ::
  "env \<Rightarrow> string \<Rightarrow> declarator list \<Rightarrow> optimizer \<Rightarrow> optimizer" where
  "optimizeVariableDeclarators env kind [] s = s"
| "optimizeVariableDeclarators env kind ((i, init) # rest) s =
     (let (init', s1) =
            (case init of
               Some e \<Rightarrow> (let (optimized, s1) = optimizeExpression env e s
                          in (Some (expr optimized), s1))
             | None \<Rightarrow> (None, s))
      in optimizeVariableDeclarators env kind rest
           (pushStatements [VariableDeclaration kind [(i, init')]] s1))"

definition optimizeVariableDeclaration ::
  "env \<Rightarrow> string \<Rightarrow> declarator list \<Rightarrow> optimizer \<Rightarrow> optimizer" where
  "optimizeVariableDeclaration env kind declarations s =
     optimizeVariableDeclarators env kind declarations s"

definition optimizeReturnStatement ::
  "env \<Rightarrow> node option \<Rightarrow> optimizer \<Rightarrow> node option \<times> optimizer" where
  "optimizeReturnStatement env argument s =
     (case argument of
        Some a \<Rightarrow> (let (optimized, s1) = optimizeExpression env a s in (Some (expr optimized), s1))
      | None \<Rightarrow> (None, s))"

definition optimizeThrowStatement :: "env \<Rightarrow> node \<Rightarrow> optimizer \<Rightarrow> node \<times> optimizer" where
  "optimizeThrowStatement env argument s =
     (let (optimized, s1) = optimizeExpression env argument s in (expr optimized, s1))"

fun optimizeBlockBody :: "statement_walk \<Rightarrow> stmt list \<Rightarrow> optimizer \<Rightarrow> optimizer" where
  "optimizeBlockBody this_optimizeStatement [] s = s"
| "optimizeBlockBody this_optimizeStatement (st # rest) s =
     optimizeBlockBody this_optimizeStatement rest (this_optimizeStatement st False s)"

definition optimizeBlock :: "statement_walk \<Rightarrow> env \<Rightarrow> stmt \<Rightarrow> optimizer \<Rightarrow> optimizer" where
  "optimizeBlock this_optimizeStatement env path s =
     (if shouldSkipStatement env path then s
      else (case path of
              BlockStatement body \<Rightarrow> optimizeBlockBody this_optimizeStatement body s
            | _ \<Rightarrow> s))"

definition optimizeBlockStatement ::
  "statement_walk \<Rightarrow> env \<Rightarrow> stmt \<Rightarrow> bool \<Rightarrow> optimizer \<Rightarrow> optimizer" where
  "optimizeBlockStatement this_optimizeStatement env path topBlock s =
     (if topBlock then optimizeBlock this_optimizeStatement env path s
      else (let s1 = optimizeBlock this_optimizeStatement env path (enterScope False s);
                (block, s2) = leaveScope s1;
                ((sts, _), s3) = childStatements block s2
            in pushStatements [BlockStatement sts] s3))"

definition optimizeIfStatement ::
  "statement_walk \<Rightarrow> env \<Rightarrow> node \<Rightarrow> stmt \<Rightarrow> stmt option \<Rightarrow> optimizer \<Rightarrow> optimizer" where
  "optimizeIfStatement this_optimizeStatement env test consequent alternate s =
     (let (optimized, s1) = optimizeExpression env test s;
          s2 = this_optimizeStatement consequent True (enterScope False s1);
          (consequentScope, s3) = leaveScope s2;
          ((consequentStatements, _), s4) = childStatements consequentScope s3;
          (alternate', s5) =
            (case alternate of
               Some a \<Rightarrow>
                 (let s5 = this_optimizeStatement a True (enterScope False s4);
                      (alternateScope, s6) = leaveScope s5;
                      ((alternateStatements, _), s7) = childStatements alternateScope s6
                  in (Some (BlockStatement alternateStatements), s7))
             | None \<Rightarrow> (None, s4))
      in pushStatements
           [IfStatement (expr optimized) (BlockStatement consequentStatements) alternate'] s5)"

definition optimizeLoopStatement ::
  "statement_walk \<Rightarrow> env \<Rightarrow> stmt \<Rightarrow> optimizer \<Rightarrow> stmt \<times> optimizer" where
  "optimizeLoopStatement this_optimizeStatement env body s =
     (let s1 = this_optimizeStatement body True (enterScope True s);
          (loopScope, s2) = leaveScope s1;
          ((sts, loopScope1), s3) = childStatements loopScope s2;
          ((memoDeclaration, _), s4) = childLoopMemoDeclaration loopScope1 s3;
          s5 = (case memoDeclaration of
                  Some d \<Rightarrow> pushStatements [d] s4
                | None \<Rightarrow> s4)
      in (BlockStatement sts, s5))"

definition optimizeForXStatement ::
  "statement_walk \<Rightarrow> env \<Rightarrow> node \<Rightarrow> stmt \<Rightarrow> optimizer \<Rightarrow> (node \<times> stmt) \<times> optimizer" where
  "optimizeForXStatement this_optimizeStatement env right body s =
     (let (optimized, s1) = optimizeExpression env right s;
          (body', s2) = optimizeLoopStatement this_optimizeStatement env body s1
      in ((expr optimized, body'), s2))"

fun optimizeSwitchCases ::
  "statement_walk \<Rightarrow> env \<Rightarrow> (node option \<times> stmt list) list \<Rightarrow> optimizer
   \<Rightarrow> (node option \<times> stmt list) list \<times> optimizer" where
  "optimizeSwitchCases this_optimizeStatement env [] s = ([], s)"
| "optimizeSwitchCases this_optimizeStatement env ((test, consequent) # rest) s =
     (let s1 = optimizeBlockBody this_optimizeStatement consequent (enterScope False s);
          (caseScope, s2) = leaveScope s1;
          ((sts, _), s3) = childStatements caseScope s2;
          (rest', s4) = optimizeSwitchCases this_optimizeStatement env rest s3
      in ((test, sts) # rest', s4))"

definition optimizeSwitchStatement ::
  "statement_walk \<Rightarrow> env \<Rightarrow> node \<Rightarrow> (node option \<times> stmt list) list \<Rightarrow> optimizer
   \<Rightarrow> (node \<times> (node option \<times> stmt list) list) \<times> optimizer" where
  "optimizeSwitchStatement this_optimizeStatement env discriminant cases s =
     (let (newDiscriminant, s1) = optimizeExpression env discriminant s;
          (cases', s2) = optimizeSwitchCases this_optimizeStatement env cases s1
      in ((expr newDiscriminant, cases'), s2))"

definition optimizeTryStatement ::
  "statement_walk \<Rightarrow> env \<Rightarrow> stmt \<Rightarrow> (string \<times> stmt) option \<Rightarrow> stmt option \<Rightarrow> optimizer
   \<Rightarrow> (stmt \<times> (string \<times> stmt) option \<times> stmt option) \<times> optimizer" where
  "optimizeTryStatement this_optimizeStatement env block handler finalizer s =
     (let s1 = optimizeBlock this_optimizeStatement env block (enterScope False s);
          (tryBlock, s2) = leaveScope s1;
          ((blockStatements, _), s3) = childStatements tryBlock s2;
          (handler', s4) =
            (case handler of
               Some (param, body) \<Rightarrow>
                 (let t1 = optimizeBlock this_optimizeStatement env body (enterScope False s3);
                      (catchClause, t2) = leaveScope t1;
                      ((bodyStatements, _), t3) = childStatements catchClause t2
                  in (Some (param, BlockStatement bodyStatements), t3))
             | None \<Rightarrow> (None, s3));
          (finalizer', s5) =
            (case finalizer of
               Some h \<Rightarrow>
                 (let t1 = optimizeBlock this_optimizeStatement env h (enterScope False s4);
                      (finalizerBlock, t2) = leaveScope t1;
                      ((finalizerStatements, _), t3) = childStatements finalizerBlock t2
                  in (Some (BlockStatement finalizerStatements), t3))
             | None \<Rightarrow> (None, s4))
      in ((BlockStatement blockStatements, handler', finalizer'), s5))"

definition optimizeLabeledStatement ::
  "statement_walk \<Rightarrow> env \<Rightarrow> stmt \<Rightarrow> optimizer \<Rightarrow> stmt \<times> optimizer" where
  "optimizeLabeledStatement this_optimizeStatement env body s =
     (let s1 = this_optimizeStatement body False (enterScope False s);
          (block, s2) = leaveScope s1;
          ((sts, _), s3) = childStatements block s2
      in (BlockStatement sts, s3))"

definition agreeS :: "nat \<Rightarrow> statement_walk \<Rightarrow> statement_walk \<Rightarrow> bool" where
  "agreeS n f g \<longleftrightarrow> (\<forall>x. size x < n \<longrightarrow> f x = g x)"

lemma agreeS_mono: "agreeS n f g \<Longrightarrow> m \<le> n \<Longrightarrow> agreeS m f g"
  by (simp add: agreeS_def)

lemma agreeSD: "agreeS n f g \<Longrightarrow> size x < n \<Longrightarrow> f x = g x"
  by (simp add: agreeS_def)

lemma agreeSI: "(\<And>x b t. size x < n \<Longrightarrow> f x b t = g x b t) \<Longrightarrow> agreeS n f g"
  by (auto simp: agreeS_def intro!: ext)

lemma optimizeBlockBody_agree:
  "agreeS (Suc (size_list size sts)) f g \<Longrightarrow> optimizeBlockBody f sts = optimizeBlockBody g sts"
proof (induction sts)
  case Nil
  show ?case by (intro ext) simp
next
  case (Cons st rest)
  have A: "agreeS (Suc (size_list size (st # rest))) f g"
    using Cons.prems by simp
  have IH: "optimizeBlockBody f rest = optimizeBlockBody g rest"
    by (rule Cons.IH[OF agreeS_mono[OF A]]) simp
  have "f st = g st"
    by (rule agreeSD[OF A]) simp
  then show ?case
    by (intro ext) (simp add: IH)
qed

lemma optimizeBlock_agree:
  assumes "agreeS (size path) f g"
  shows "optimizeBlock f env path = optimizeBlock g env path"
proof -
  have h: "\<And>ys. Suc (size_list size ys) \<le> size path \<Longrightarrow>
      optimizeBlockBody f ys = optimizeBlockBody g ys"
    by (rule optimizeBlockBody_agree[OF agreeS_mono[OF assms]])
  show ?thesis
    by (intro ext) (simp add: optimizeBlock_def h cong: stmt.case_cong if_cong split del: if_split)
qed

lemma optimizeBlockStatement_agree:
  assumes "agreeS (size path) f g"
  shows "optimizeBlockStatement f env path = optimizeBlockStatement g env path"
  by (intro ext) (simp add: optimizeBlockStatement_def optimizeBlock_agree[OF assms])

lemma optimizeBlockStatement_cong [fundef_cong]:
  assumes "\<And>x b t. size x < size path \<Longrightarrow> f x b t = g x b t"
  shows "optimizeBlockStatement f env path topBlock s = optimizeBlockStatement g env path topBlock s"
proof -
  have "agreeS (size path) f g"
    by (rule agreeSI) (rule assms)
  from optimizeBlockStatement_agree[OF this] show ?thesis
    by simp
qed

lemma optimizeIfStatement_agree:
  assumes "agreeS (Suc (size consequent + size_option size alternate)) f g"
  shows "optimizeIfStatement f env test consequent alternate =
         optimizeIfStatement g env test consequent alternate"
proof -
  have base: "\<And>x. size x < Suc (size consequent + size_option size alternate) \<Longrightarrow> f x = g x"
    by (rule agreeSD[OF assms])
  show ?thesis
    by (intro ext)
       (simp add: optimizeIfStatement_def base cong: option.case_cong if_cong split del: if_split)
qed

lemma optimizeIfStatement_cong [fundef_cong]:
  assumes "\<And>x b t. size x < Suc (size consequent + size_option size alternate) \<Longrightarrow>
             f x b t = g x b t"
  shows "optimizeIfStatement f env test consequent alternate s =
         optimizeIfStatement g env test consequent alternate s"
proof -
  have "agreeS (Suc (size consequent + size_option size alternate)) f g"
    by (rule agreeSI) (rule assms)
  from optimizeIfStatement_agree[OF this] show ?thesis
    by simp
qed

lemma optimizeLoopStatement_agree:
  assumes "agreeS (Suc (size body)) f g"
  shows "optimizeLoopStatement f env body = optimizeLoopStatement g env body"
proof -
  have "f body = g body"
    by (rule agreeSD[OF assms]) simp
  then show ?thesis
    by (intro ext) (simp add: optimizeLoopStatement_def)
qed

lemma optimizeLoopStatement_cong [fundef_cong]:
  assumes "\<And>x b t. size x < Suc (size body) \<Longrightarrow> f x b t = g x b t"
  shows "optimizeLoopStatement f env body s = optimizeLoopStatement g env body s"
proof -
  have "agreeS (Suc (size body)) f g"
    by (rule agreeSI) (rule assms)
  from optimizeLoopStatement_agree[OF this] show ?thesis
    by simp
qed

lemma optimizeForXStatement_cong [fundef_cong]:
  assumes "\<And>x b t. size x < Suc (size body) \<Longrightarrow> f x b t = g x b t"
  shows "optimizeForXStatement f env right body s = optimizeForXStatement g env right body s"
proof -
  have "agreeS (Suc (size body)) f g"
    by (rule agreeSI) (rule assms)
  from optimizeLoopStatement_agree[OF this] show ?thesis
    by (simp add: optimizeForXStatement_def)
qed

lemma optimizeSwitchCases_agree:
  "agreeS (Suc (size_list (size_prod (\<lambda>x. 0) (size_list size)) cases)) f g \<Longrightarrow>
   optimizeSwitchCases f env cases = optimizeSwitchCases g env cases"
proof (induction cases)
  case Nil
  show ?case by (intro ext) simp
next
  case (Cons current rest)
  obtain test consequent where current: "current = (test, consequent)"
    by (cases current)
  have A: "agreeS (Suc (size_list (size_prod (\<lambda>x. 0) (size_list size)) (current # rest))) f g"
    using Cons.prems by simp
  have IH: "optimizeSwitchCases f env rest = optimizeSwitchCases g env rest"
    by (rule Cons.IH[OF agreeS_mono[OF A]]) simp
  have "optimizeBlockBody f consequent = optimizeBlockBody g consequent"
    by (rule optimizeBlockBody_agree[OF agreeS_mono[OF A]]) (simp add: current)
  then show ?case
    by (intro ext) (simp add: IH current)
qed

lemma optimizeSwitchStatement_cong [fundef_cong]:
  assumes "\<And>x b t. size x < Suc (size_list (size_prod (\<lambda>x. 0) (size_list size)) cases) \<Longrightarrow>
             f x b t = g x b t"
  shows "optimizeSwitchStatement f env discriminant cases s =
         optimizeSwitchStatement g env discriminant cases s"
proof -
  have "agreeS (Suc (size_list (size_prod (\<lambda>x. 0) (size_list size)) cases)) f g"
    by (rule agreeSI) (rule assms)
  from optimizeSwitchCases_agree[OF this] show ?thesis
    by (simp add: optimizeSwitchStatement_def)
qed

lemma optimizeTryStatement_agree:
  assumes "agreeS (Suc (size block + size_option (size_prod (\<lambda>x. 0) size) handler
                        + size_option size finalizer)) f g"
  shows "optimizeTryStatement f env block handler finalizer =
         optimizeTryStatement g env block handler finalizer"
proof -
  have h: "\<And>p. size p \<le> Suc (size block + size_option (size_prod (\<lambda>x. 0) size) handler
                        + size_option size finalizer) \<Longrightarrow>
      optimizeBlock f env p = optimizeBlock g env p"
    by (rule optimizeBlock_agree[OF agreeS_mono[OF assms]])
  show ?thesis
    by (intro ext)
       (simp add: optimizeTryStatement_def h
        cong: option.case_cong prod.case_cong if_cong split del: if_split)
qed

lemma optimizeTryStatement_cong [fundef_cong]:
  assumes "\<And>x b t. size x < Suc (size block + size_option (size_prod (\<lambda>x. 0) size) handler
                        + size_option size finalizer) \<Longrightarrow> f x b t = g x b t"
  shows "optimizeTryStatement f env block handler finalizer s =
         optimizeTryStatement g env block handler finalizer s"
proof -
  have "agreeS (Suc (size block + size_option (size_prod (\<lambda>x. 0) size) handler
                        + size_option size finalizer)) f g"
    by (rule agreeSI) (rule assms)
  from optimizeTryStatement_agree[OF this] show ?thesis
    by simp
qed

lemma optimizeLabeledStatement_cong [fundef_cong]:
  assumes "\<And>x b t. size x < Suc (size body) \<Longrightarrow> f x b t = g x b t"
  shows "optimizeLabeledStatement f env body s = optimizeLabeledStatement g env body s"
proof -
  have "f body = g body"
    by (intro ext assms) simp
  then show ?thesis
    by (simp add: optimizeLabeledStatement_def)
qed

function optimizeStatement :: "env \<Rightarrow> stmt \<Rightarrow> bool \<Rightarrow> optimizer \<Rightarrow> optimizer" where
  "optimizeStatement env path topBlock s =
     (if shouldSkipStatement env path then s
      else (case path of
              ExpressionStatement e \<Rightarrow>
                (let (e', s1) = optimizeExpressionStatement env e s
                 in pushStatements [ExpressionStatement e'] s1)
            | VariableDeclaration kind declarations \<Rightarrow>
                optimizeVariableDeclaration env kind declarations s
            | ReturnStatement argument \<Rightarrow>
                (let (argument', s1) = optimizeReturnStatement env argument s
                 in pushStatements [ReturnStatement argument'] s1)
            | ThrowStatement argument \<Rightarrow>
                (let (argument', s1) = optimizeThrowStatement env argument s
                 in pushStatements [ThrowStatement argument'] s1)
            | BlockStatement body \<Rightarrow>
                optimizeBlockStatement (optimizeStatement env) env path topBlock s
            | IfStatement test consequent alternate \<Rightarrow>
                optimizeIfStatement (optimizeStatement env) env test consequent alternate s
            | ForInStatement left right body \<Rightarrow>
                (let ((right', body'), s1) =
                       optimizeForXStatement (optimizeStatement env) env right body s
                 in pushStatements [ForInStatement left right' body'] s1)
            | ForOfStatement left right body \<Rightarrow>
                (let ((right', body'), s1) =
                       optimizeForXStatement (optimizeStatement env) env right body s
                 in pushStatements [ForOfStatement left right' body'] s1)
            | ForStatement head body \<Rightarrow>
                (let (body', s1) = optimizeLoopStatement (optimizeStatement env) env body s
                 in pushStatements [ForStatement head body'] s1)
            | WhileStatement test body \<Rightarrow>
                (let (body', s1) = optimizeLoopStatement (optimizeStatement env) env body s
                 in pushStatements [WhileStatement test body'] s1)
            | DoWhileStatement body test \<Rightarrow>
                (let (body', s1) = optimizeLoopStatement (optimizeStatement env) env body s
                 in pushStatements [DoWhileStatement body' test] s1)
            | SwitchStatement discriminant cases \<Rightarrow>
                (let ((discriminant', cases'), s1) =
                       optimizeSwitchStatement (optimizeStatement env) env discriminant cases s
                 in pushStatements [SwitchStatement discriminant' cases'] s1)
            | TryStatement block handler finalizer \<Rightarrow>
                (let ((block', handler', finalizer'), s1) =
                       optimizeTryStatement (optimizeStatement env) env block handler finalizer s
                 in pushStatements [TryStatement block' handler' finalizer'] s1)
            | LabeledStatement label body \<Rightarrow>
                (let (body', s1) = optimizeLabeledStatement (optimizeStatement env) env body s
                 in pushStatements [LabeledStatement label body'] s1)
            | OtherStatement _ \<Rightarrow> pushStatements [path] s))"
  by pat_completeness fast
termination
  by (relation "measure (\<lambda>(env, path, topBlock, s). size path)") auto

declare optimizeStatement.simps [simp del]

section \<open>Components\<close>

text \<open>
  A component is an arrow function (whose body is an expression or a block) or a function
  expression or declaration. \<open>optimize\<close> returns the new body of the component.
\<close>

datatype component =
    ArrowComponent "node + stmt"
  | FunctionComponent stmt

definition Optimizer :: optimizer where
  "Optimizer = \<lparr>scope = OptimizerScope False, parents = [], uid = 0,
                 nodeConstantCheckCache = Map.empty, dependency = Map.empty\<rparr>"

text \<open>\<open>this.scope.getStatements()\<close> for the current scope.\<close>

definition scopeStatements :: "optimizer \<Rightarrow> stmt list \<times> optimizer" where
  "scopeStatements s =
     (let (sts, this', ps, u) = getStatements (scope s) (parents s) (uid s)
      in (sts, s\<lparr>scope := this', parents := ps, uid := u\<rparr>))"

definition optimizeFunctionComponent :: "env \<Rightarrow> stmt \<Rightarrow> optimizer \<Rightarrow> stmt \<times> optimizer" where
  "optimizeFunctionComponent env body s =
     (let s1 = optimizeBlock (optimizeStatement env) env body s;
          (sts, s2) = scopeStatements s1
      in (BlockStatement sts, s2))"

definition optimizeArrowComponent :: "env \<Rightarrow> node + stmt \<Rightarrow> optimizer \<Rightarrow> stmt \<times> optimizer" where
  "optimizeArrowComponent env body s =
     (let body1 = (case body of
                     Inr st \<Rightarrow> st
                   | Inl e \<Rightarrow> BlockStatement [ReturnStatement (Some e)]);
          s1 = optimizeBlock (optimizeStatement env) env body1 s;
          (sts, s2) = scopeStatements s1
      in (BlockStatement sts, s2))"

definition optimize :: "env \<Rightarrow> component \<Rightarrow> optimizer \<Rightarrow> stmt \<times> optimizer" where
  "optimize env path s =
     (case path of
        ArrowComponent body \<Rightarrow> optimizeArrowComponent env body s
      | FunctionComponent body \<Rightarrow> optimizeFunctionComponent env body s)"

section \<open>Properties of the simplifier\<close>

lemma getBooleanishState_unwrapNested:
  "getBooleanishState (unwrapNested e) = getBooleanishState e"
  by (induction e rule: unwrapNested.induct) simp_all

lemma getBooleanishState_not_literal:
  "\<not> isPrimitiveLiteral (unwrapNested e) \<Longrightarrow> getBooleanishState e = indeterminate"
proof -
  assume a: "\<not> isPrimitiveLiteral (unwrapNested e)"
  have "\<not> isPrimitiveLiteral x \<Longrightarrow> (\<forall>k y. x \<noteq> NestedExpression k y) \<Longrightarrow> getBooleanishState x = indeterminate" for x
    by (cases x) simp_all
  moreover have "\<forall>k y. unwrapNested e \<noteq> NestedExpression k y"
    by (induction e rule: unwrapNested.induct) simp_all
  ultimately have "getBooleanishState (unwrapNested e) = indeterminate"
    using a by blast
  then show ?thesis
    by (simp add: getBooleanishState_unwrapNested)
qed

text \<open>
  Claim C8. For a logical expression visited by the simplifier: when the left operand is
  nullish the expression becomes the right operand for \<open>??\<close> and the left one
  otherwise; when it is falsy, the right operand for \<open>||\<close> and the left one
  otherwise; when it is truthy, the right operand for \<open>&&\<close> and the left one
  otherwise; a left operand that is not a boolean, numeric, string, bigint or null literal
  (seen through nesting wrappers) is indeterminate and the expression stays as it is.
\<close>

theorem simplify_logical_expression:
  "(getBooleanishState left = nullish \<longrightarrow>
      LogicalExpression_exit operator left right = (if operator = ''??'' then right else left)) \<and>
   (getBooleanishState left = falsy \<longrightarrow>
      LogicalExpression_exit operator left right = (if operator = ''||'' then right else left)) \<and>
   (getBooleanishState left = truthy \<longrightarrow>
      LogicalExpression_exit operator left right = (if operator = ''&&'' then right else left)) \<and>
   (\<not> isPrimitiveLiteral (unwrapNested left) \<longrightarrow>
      getBooleanishState left = indeterminate \<and>
      LogicalExpression_exit operator left right = LogicalExpression operator left right)"
  by (simp add: LogicalExpression_exit_def getBooleanishState_not_literal)

theorem simplify_logical_expression_witness:
  "LogicalExpression_exit ''??'' (NestedExpression ParenthesizedExpression NullLiteral)
     (NumericLiteral 1) = NumericLiteral 1 \<and>
   LogicalExpression_exit ''&&'' NullLiteral (NumericLiteral 1) = NullLiteral \<and>
   LogicalExpression_exit ''||'' (StringLiteral []) (NumericLiteral 1) = NumericLiteral 1 \<and>
   LogicalExpression_exit ''??'' (NumericLiteral 0) (NumericLiteral 1) = NumericLiteral 0 \<and>
   LogicalExpression_exit ''&&'' (BigIntLiteral ''7'') (NumericLiteral 1) = NumericLiteral 1 \<and>
   LogicalExpression_exit ''||'' (BooleanLiteral True) (NumericLiteral 1) = BooleanLiteral True \<and>
   LogicalExpression_exit ''||'' (NestedExpression TSAsExpression (ArrayExpression []))
     (NumericLiteral 1) =
     LogicalExpression ''||'' (NestedExpression TSAsExpression (ArrayExpression [])) (NumericLiteral 1)"
  using simplify_logical_expression
          [of "NestedExpression ParenthesizedExpression NullLiteral" "''??''" "NumericLiteral 1"]
        simplify_logical_expression [of NullLiteral "''&&''" "NumericLiteral 1"]
        simplify_logical_expression [of "StringLiteral []" "''||''" "NumericLiteral 1"]
        simplify_logical_expression [of "NumericLiteral 0" "''??''" "NumericLiteral 1"]
        simplify_logical_expression [of "BigIntLiteral ''7''" "''&&''" "NumericLiteral 1"]
        simplify_logical_expression [of "BooleanLiteral True" "''||''" "NumericLiteral 1"]
        simplify_logical_expression
          [of "NestedExpression TSAsExpression (ArrayExpression [])" "''||''" "NumericLiteral 1"]
  by simp

section \<open>Properties of \<open>createMemo\<close>\<close>

text \<open>
  Notions used to state what \<open>createMemo\<close> emits: the statements pushed into the
  current scope between two states, the header that \<open>createMemo\<close> selects, the value
  of the uid counter after that selection, and the next slot of a cache in a scope.
\<close>

definition pushed :: "optimizer \<Rightarrow> optimizer \<Rightarrow> stmt list" where
  "pushed s s' = drop (length (statements (scope s))) (statements (scope s'))"

definition memoHeader :: "cache_type \<Rightarrow> optimizer \<Rightarrow> ident" where
  "memoHeader type s =
     fst (if isInLoop (scope s) then createLoopHeader None (scope s) (uid s)
          else createHeader type (scope s) (uid s))"

definition memoHeaderUid :: "cache_type \<Rightarrow> optimizer \<Rightarrow> nat" where
  "memoHeaderUid type s =
     snd (snd (if isInLoop (scope s) then createLoopHeader None (scope s) (uid s)
               else createHeader type (scope s) (uid s)))"

definition slotCount :: "cache_type \<Rightarrow> scope \<Rightarrow> nat" where
  "slotCount type sc = (if type = TMemo then indecesMemo sc else indecesRef sc)"

text \<open>
  An identifier that the uid counter \<open>u\<close> cannot produce again, and a scope without
  its entry for a key.
\<close>

definition generatedBefore :: "nat \<Rightarrow> ident \<Rightarrow> bool" where
  "generatedBefore u i = (case i of Uid k _ \<Rightarrow> k < u | _ \<Rightarrow> True)"

definition withoutOptimized :: "ident \<Rightarrow> scope \<Rightarrow> scope" where
  "withoutOptimized key sc = sc\<lparr>optimizedID := (optimizedID sc)(key := None)\<rparr>"

text \<open>An environment for examples: the bindings of the component and its hooks.\<close>

definition componentEnv :: "(string \<times> ident) list \<Rightarrow> (string \<times> hook_call_type) list \<Rightarrow> env" where
  "componentEnv bindings hooks =
     \<lparr>shouldSkipNode = (\<lambda>_. False),
      shouldSkipStatement = (\<lambda>_. False),
      constantNode = (\<lambda>_ _ e. case e of Identifier i \<Rightarrow> map_of bindings (identName i) = None
                                | _ \<Rightarrow> False),
      isForeignBinding = (\<lambda>_ _. False),
      getBindingIdentifier = (\<lambda>_ x. map_of bindings x),
      getForeignBindings = (\<lambda>_. []),
      getHookCallType = (\<lambda>e. case e of
                                CallExpression (Identifier i) _ \<Rightarrow>
                                  (case map_of hooks (identName i) of Some h \<Rightarrow> h | None \<Rightarrow> HNone)
                              | _ \<Rightarrow> HNone),
      presetRuntimeMemo = False\<rparr>"

lemma createHeader_statements [simp]:
  "statements (fst (snd (createHeader type sc u))) = statements sc"
  by (simp add: createHeader_def generateUidIdentifier_def split: cache_type.splits option.splits)

lemma createLoopHeader_statements [simp]:
  "statements (fst (snd (createLoopHeader type sc u))) = statements sc"
  by (simp add: createLoopHeader_def generateUidIdentifier_def split: option.splits)

lemma createHeader_slotCount [simp]:
  "slotCount t (fst (snd (createHeader type sc u))) = slotCount t sc"
  by (simp add: createHeader_def generateUidIdentifier_def slotCount_def
           split: cache_type.splits option.splits)

lemma createLoopHeader_slotCount [simp]:
  "slotCount t (fst (snd (createLoopHeader type sc u))) = slotCount t sc"
  by (simp add: createLoopHeader_def generateUidIdentifier_def slotCount_def split: option.splits)

lemma createIndex_fst: "fst (createIndex type sc) = NumericLiteral (of_nat (slotCount type sc))"
  by (simp add: createIndex_def slotCount_def Let_def)

lemma createIndex_statements [simp]: "statements (snd (createIndex type sc)) = statements sc"
  by (simp add: createIndex_def Let_def)

lemma createIndex_slotCount:
  "slotCount t (snd (createIndex type sc)) = (if t = type then Suc (slotCount t sc) else slotCount t sc)"
  by (cases t; cases type) (simp_all add: createIndex_def slotCount_def Let_def)

text \<open>
  The result of \<open>createMemo\<close> when it does not return early, in terms of the selected
  header and the condition.
\<close>

lemma createMemo_fresh:
  assumes "\<forall>i. current = Identifier i \<longrightarrow> getOptimized i (scope s) = None"
  shows "pushed s (snd (createMemo current dependencies type s)) =
     (let header = memoHeader type s;
          u = memoHeaderUid type s;
          index = NumericLiteral (of_nat (slotCount type (scope s)));
          pos = MemberExpression (Identifier header) index True;
          condition = createMemoCondition dependencies header index current;
          eqid = (case condition of
                    None \<Rightarrow> pos
                  | Some c \<Rightarrow> if isIdentifier c then c else Identifier (Uid (Suc u) ''equals'')) 
      in [VariableDeclaration ''let''
            ((case condition of
                None \<Rightarrow> []
              | Some c \<Rightarrow> if isIdentifier c then [] else [(eqid, Some c)]) @
             [(Identifier (Uid u ''value''),
               Some (ConditionalExpression
                       (if condition \<noteq> None then eqid
                        else BinaryExpression ''in'' index (Identifier header))
                       pos (AssignmentExpression ''='' pos current)))])])"
proof -
  have none: "(case current of Identifier i \<Rightarrow> getOptimized i (scope s) | _ \<Rightarrow> None) = None"
    using assms by (cases current) simp_all
  show ?thesis
    by (simp add: createMemo_def none pushed_def memoHeader_def memoHeaderUid_def Let_def
          split_beta push_def addConstant_def setOptimized_def generateUidIdentifier_def
          createIndex_fst
        split: node.splits option.splits)
qed

text \<open>
  Claim C5, as amended. When \<open>createMemo\<close> allocates a slot (the expression is not an
  identifier that the current scope has already optimized) and the dependencies are omitted
  or \<open>false\<close>, the declaration it pushes binds the guard \<open>equals(header, i, expr)\<close>
  to a fresh identifier and tests that identifier. With an empty list of dependencies no
  guard is emitted: the declaration is the one-time form that tests \<open>i in header\<close>.
\<close>

theorem createMemo_equals_guard:
  assumes "\<forall>i. current = Identifier i \<longrightarrow> getOptimized i (scope s) = None"
  shows "let header = memoHeader type s;
             u = memoHeaderUid type s;
             index = NumericLiteral (of_nat (slotCount type (scope s)));
             pos = MemberExpression (Identifier header) index True;
             v = Identifier (Uid u ''value'');
             eq = Identifier (Uid (Suc u) ''equals'')
         in (dependencies = Omitted \<or> dependencies = Flag False \<longrightarrow>
               pushed s (snd (createMemo current dependencies type s)) =
                 [VariableDeclaration ''let''
                    [(eq, Some (CallExpression (getImportIdentifier RUNTIME_EQUALS)
                                  [Identifier header, index, current])),
                     (v, Some (ConditionalExpression eq pos
                                 (AssignmentExpression ''='' pos current)))]]) \<and>
            (dependencies = Array [] \<longrightarrow>
               pushed s (snd (createMemo current dependencies type s)) =
                 [VariableDeclaration ''let''
                    [(v, Some (ConditionalExpression
                                 (BinaryExpression ''in'' index (Identifier header)) pos
                                 (AssignmentExpression ''='' pos current)))]])"
  using createMemo_fresh[OF assms, of dependencies type]
  by (auto simp: Let_def createMemoCondition_def getImportIdentifier_def)

theorem createMemo_equals_guard_witness:
  "pushed Optimizer
     (snd (createMemo (CallExpression (Identifier (Src 1 ''f'')) []) (Flag False) TMemo Optimizer)) =
     [VariableDeclaration ''let''
        [(Identifier (Uid 2 ''equals''),
          Some (CallExpression (Identifier (Runtime ''equals''))
                  [Identifier (Uid 0 ''cache''), NumericLiteral 0,
                   CallExpression (Identifier (Src 1 ''f'')) []])),
         (Identifier (Uid 1 ''value''),
          Some (ConditionalExpression (Identifier (Uid 2 ''equals''))
                  (MemberExpression (Identifier (Uid 0 ''cache'')) (NumericLiteral 0) True)
                  (AssignmentExpression ''=''
                     (MemberExpression (Identifier (Uid 0 ''cache'')) (NumericLiteral 0) True)
                     (CallExpression (Identifier (Src 1 ''f'')) []))))]] \<and>
   pushed Optimizer
     (snd (createMemo (CallExpression (Identifier (Src 1 ''f'')) []) Omitted TRef Optimizer)) =
     [VariableDeclaration ''let''
        [(Identifier (Uid 2 ''equals''),
          Some (CallExpression (Identifier (Runtime ''equals''))
                  [Identifier (Uid 0 ''ref''), NumericLiteral 0,
                   CallExpression (Identifier (Src 1 ''f'')) []])),
         (Identifier (Uid 1 ''value''),
          Some (ConditionalExpression (Identifier (Uid 2 ''equals''))
                  (MemberExpression (Identifier (Uid 0 ''ref'')) (NumericLiteral 0) True)
                  (AssignmentExpression ''=''
                     (MemberExpression (Identifier (Uid 0 ''ref'')) (NumericLiteral 0) True)
                     (CallExpression (Identifier (Src 1 ''f'')) []))))]] \<and>
   pushed Optimizer
     (snd (createMemo (Identifier (Src 2 ''x'')) (Array []) TMemo Optimizer)) =
     [VariableDeclaration ''let''
        [(Identifier (Uid 1 ''value''),
          Some (ConditionalExpression
                  (BinaryExpression ''in'' (NumericLiteral 0) (Identifier (Uid 0 ''cache'')))
                  (MemberExpression (Identifier (Uid 0 ''cache'')) (NumericLiteral 0) True)
                  (AssignmentExpression ''=''
                     (MemberExpression (Identifier (Uid 0 ''cache'')) (NumericLiteral 0) True)
                     (Identifier (Src 2 ''x'')))))]]"
  using createMemo_equals_guard
          [where current = "CallExpression (Identifier (Src 1 ''f'')) []" and s = Optimizer
             and dependencies = "Flag False" and type = TMemo]
        createMemo_equals_guard
          [where current = "CallExpression (Identifier (Src 1 ''f'')) []" and s = Optimizer
             and dependencies = Omitted and type = TRef]
        createMemo_equals_guard
          [where current = "Identifier (Src 2 ''x'')" and s = Optimizer
             and dependencies = "Array []" and type = TMemo]
  by (simp add: Let_def memoHeader_def memoHeaderUid_def slotCount_def Optimizer_def
        OptimizerScope_def createHeader_def generateUidIdentifier_def getImportIdentifier_def
        RUNTIME_EQUALS_def getOptimized_def)

text \<open>
  The claim as written also covers an empty list of dependencies; there the declaration
  has a single declarator and no call of \<open>equals\<close>.
\<close>

theorem createMemo_empty_list_counterexample:
  "pushed Optimizer
     (snd (createMemo (CallExpression (Identifier (Src 1 ''f'')) []) (Array []) TMemo Optimizer)) =
     [VariableDeclaration ''let''
        [(Identifier (Uid 1 ''value''),
          Some (ConditionalExpression
                  (BinaryExpression ''in'' (NumericLiteral 0) (Identifier (Uid 0 ''cache'')))
                  (MemberExpression (Identifier (Uid 0 ''cache'')) (NumericLiteral 0) True)
                  (AssignmentExpression ''=''
                     (MemberExpression (Identifier (Uid 0 ''cache'')) (NumericLiteral 0) True)
                     (CallExpression (Identifier (Src 1 ''f'')) []))))]]"
  by code_simp




text \<open>
  \<open>createMemo\<close> reads and writes the current scope only: the ancestors of the scope
  have no part in its result.
\<close>

lemma createMemo_parents:
  "createMemo current dependencies type (s\<lparr>parents := ps\<rparr>) =
     (fst (createMemo current dependencies type s),
      (snd (createMemo current dependencies type s))\<lparr>parents := ps\<rparr>)"
  by (simp add: createMemo_def Let_def split_beta split: node.splits option.splits)

lemma createMemo_parents_same [simp]:
  "parents (snd (createMemo current dependencies type s)) = parents s"
  by (simp add: createMemo_def Let_def split_beta split: node.splits option.splits)

lemma createMemo_records:
  "getOptimized b (scope (snd (createMemo (Identifier b) dependencies type s))) \<noteq> None"
  by (simp add: createMemo_def Let_def split_beta getOptimized_def setOptimized_def push_def
      split: option.splits)

lemma createMemo_slotCount:
  assumes "\<forall>i. current = Identifier i \<longrightarrow> getOptimized i (scope s) = None"
  shows "slotCount t (scope (snd (createMemo current dependencies type s))) =
           (if t = type then Suc (slotCount t (scope s)) else slotCount t (scope s))"
proof -
  have none: "(case current of Identifier i \<Rightarrow> getOptimized i (scope s) | _ \<Rightarrow> None) = None"
    using assms by (cases current) simp_all
  have *: "slotCount c (push x sc) = slotCount c sc"
          "slotCount c (addConstant v sc) = slotCount c sc"
          "slotCount c (setOptimized k w sc) = slotCount c sc" for c x sc v k w
    by (simp_all add: slotCount_def push_def addConstant_def setOptimized_def)
  show ?thesis
    by (simp add: createMemo_def none Let_def split_beta * createIndex_slotCount
        split: node.splits)
qed

text \<open>
  Invalidation at any depth: when the scope at position \<open>n\<close> of the chain is the first
  that holds the key, \<open>deleteOptimized\<close> removes the entry of that scope and leaves
  every other scope as it is.
\<close>

lemma deleteOptimized_parents_first:
  "n < length chain \<Longrightarrow> \<forall>m<n. optimizedID (chain ! m) key = None \<Longrightarrow>
   optimizedID (chain ! n) key \<noteq> None \<Longrightarrow>
   deleteOptimized_parents key chain = chain[n := withoutOptimized key (chain ! n)]"
proof (induction chain arbitrary: n)
  case Nil
  then show ?case by simp
next
  case (Cons c rest)
  show ?case
  proof (cases n)
    case 0
    with Cons.prems show ?thesis by (simp add: withoutOptimized_def)
  next
    case (Suc k)
    have c: "optimizedID c key = None"
      using Cons.prems(2) Suc by auto
    have "\<forall>m<k. optimizedID (rest ! m) key = None"
      using Cons.prems(2) Suc by auto
    then have "deleteOptimized_parents key rest = rest[k := withoutOptimized key (rest ! k)]"
      using Cons.IH[of k] Cons.prems Suc by simp
    then show ?thesis
      using c Suc by simp
  qed
qed

lemma deleteOptimized_parents_length [simp]:
  "length (deleteOptimized_parents key chain) = length chain"
  by (induction chain) simp_all

lemma deleteOptimized_chain:
  "deleteOptimized key this ps =
     (hd (deleteOptimized_parents key (this # ps)), tl (deleteOptimized_parents key (this # ps)))"
  by (simp add: deleteOptimized_def)

lemma createMemo_child:
  assumes "scope c = OptimizerScope inLoop"
  shows "memoHeader type c = Uid (uid c) (if inLoop then ''loop'' else if type = TMemo then ''cache'' else ''ref'')"
    and "memoHeaderUid type c = Suc (uid c)"
    and "slotCount type (scope c) = 0"
  using assms
  by (cases type; simp add: memoHeader_def memoHeaderUid_def slotCount_def OptimizerScope_def
        createHeader_def createLoopHeader_def generateUidIdentifier_def loopKey_def)+

lemma createMemo_header_recorded:
  assumes "\<forall>i. current = Identifier i \<longrightarrow> getOptimized i (scope s) = None"
  shows "(if isInLoop (scope s) then loop (scope (snd (createMemo current dependencies type s))) ''undefined''
          else if type = TMemo then memo (scope (snd (createMemo current dependencies type s)))
          else ref (scope (snd (createMemo current dependencies type s)))) =
         Some (memoHeader type s)"
  using assms
  by (cases current; cases type)
     (simp_all add: createMemo_def memoHeader_def Let_def split_beta push_def addConstant_def
        setOptimized_def createIndex_def createHeader_def createLoopHeader_def loopKey_def
        generateUidIdentifier_def split: option.splits)

lemma createMemo_expr:
  assumes "\<forall>i. current = Identifier i \<longrightarrow> getOptimized i (scope s) = None"
  shows "expr (fst (createMemo current dependencies type s)) =
           Identifier (Uid (memoHeaderUid type s) ''value'')"
  using assms
  by (cases current)
     (simp_all add: createMemo_def memoHeaderUid_def Let_def split_beta
        generateUidIdentifier_def optimizedExpr_def)


text \<open>
  Claim C10. The lookup of already optimized identifiers in \<open>createMemo\<close> is per
  scope: the ancestors of the current scope have no part in the result. So a reference to
  a binding \<open>b\<close> for which an outer scope holds an entry is memoized again when a new
  child scope is current. The child selects a header of its own, a fresh identifier that
  differs from every identifier generated before, the access is slot \<open>0\<close> of that
  header, the result is a fresh value identifier, the header is recorded in the child, and
  the outer scope is left as it was; at its finalization a child that is not a loop body
  declares that header as a branch stored in the next free slot of the outer scope.
  Invalidation, in contrast, walks the parent chain: whatever the depth of the first scope
  that holds the key, \<open>deleteOptimized\<close> removes the entry of that scope.
\<close>

theorem createMemo_per_scope:
  "let child = enterScope inLoop s;
       r = createMemo (Identifier b) dependencies type child;
       header = Uid (uid s) (if inLoop then ''loop'' else if type = TMemo then ''cache'' else ''ref'');
       pos = MemberExpression (Identifier header) (NumericLiteral 0) True;
       v = Uid (Suc (uid s)) ''value'';
       condition = createMemoCondition dependencies header (NumericLiteral 0) (Identifier b);
       eq = (case condition of
               None \<Rightarrow> pos
             | Some c \<Rightarrow> if isIdentifier c then c else Identifier (Uid (Suc (Suc (uid s))) ''equals''));
       chain = scope s # parents s
   in (\<forall>current ps.
         createMemo current dependencies type (s\<lparr>parents := ps\<rparr>) =
           (fst (createMemo current dependencies type s),
            (snd (createMemo current dependencies type s))\<lparr>parents := ps\<rparr>)) \<and>
      (getOptimized b (scope s) \<noteq> None \<longrightarrow>
         pushed child (snd r) =
           [VariableDeclaration ''let''
              ((case condition of
                  None \<Rightarrow> []
                | Some c \<Rightarrow> if isIdentifier c then [] else [(eq, Some c)]) @
               [(Identifier v,
                 Some (ConditionalExpression
                         (if condition \<noteq> None then eq
                          else BinaryExpression ''in'' (NumericLiteral 0) (Identifier header))
                         pos (AssignmentExpression ''='' pos (Identifier b))))])] \<and>
         expr (fst r) = Identifier v \<and>
         slotCount type (scope (snd r)) = 1 \<and>
         (if inLoop then loop (scope (snd r)) ''undefined''
          else if type = TMemo then memo (scope (snd r)) else ref (scope (snd r))) = Some header \<and>
         parents (snd r) = scope s # parents s \<and>
         (\<forall>h. generatedBefore (uid s) h \<longrightarrow> h \<noteq> header \<and> h \<noteq> v) \<and>
         (\<not> inLoop \<and> type = TMemo \<longrightarrow>
            fst (getMemoDeclarations (scope (snd r)) (parents (snd r)) (uid (snd r))) =
              Some [VariableDeclaration ''let''
                      [(Identifier header,
                        Some (CallExpression (getImportIdentifier RUNTIME_BRANCH)
                                [Identifier (fst (createHeader TMemo (scope s) (uid (snd r)))),
                                 NumericLiteral (of_nat (indecesMemo (scope s))),
                                 NumericLiteral 1]))]])) \<and>
      (\<forall>key n. n < length chain \<and> (\<forall>m<n. getOptimized key (chain ! m) = None) \<and>
                getOptimized key (chain ! n) \<noteq> None \<longrightarrow>
         deleteOptimized key (scope s) (parents s) =
           (hd (chain[n := withoutOptimized key (chain ! n)]),
            tl (chain[n := withoutOptimized key (chain ! n)])))"
proof -
  define child where "child = enterScope inLoop s"
  define r where "r = createMemo (Identifier b) dependencies type child"
  define header where
    "header = Uid (uid s) (if inLoop then ''loop'' else if type = TMemo then ''cache'' else ''ref'')"
  have sc: "scope child = OptimizerScope inLoop" and u: "uid child = uid s"
    and ps: "parents child = scope s # parents s"
    by (simp_all add: child_def enterScope_def)
  have loop: "isInLoop (scope child) = inLoop"
    by (simp add: sc OptimizerScope_def)
  have fresh: "\<forall>i. Identifier b = Identifier i \<longrightarrow> getOptimized i (scope child) = None"
    by (simp add: sc OptimizerScope_def getOptimized_def)
  have mh: "memoHeader type child = header" and mu: "memoHeaderUid type child = Suc (uid s)"
    and sl: "slotCount type (scope child) = 0"
    using createMemo_child[OF sc, of type] by (simp_all add: u header_def)
  have A: "createMemo current dependencies type (s\<lparr>parents := ps\<rparr>) =
           (fst (createMemo current dependencies type s),
            (snd (createMemo current dependencies type s))\<lparr>parents := ps\<rparr>)" for current ps
    by (rule createMemo_parents)
  have B1: "pushed child (snd r) =
      (let pos = MemberExpression (Identifier header) (NumericLiteral 0) True;
           condition = createMemoCondition dependencies header (NumericLiteral 0) (Identifier b);
           eq = (case condition of
                   None \<Rightarrow> pos
                 | Some c \<Rightarrow> if isIdentifier c then c
                             else Identifier (Uid (Suc (Suc (uid s))) ''equals''))
       in [VariableDeclaration ''let''
              ((case condition of
                  None \<Rightarrow> []
                | Some c \<Rightarrow> if isIdentifier c then [] else [(eq, Some c)]) @
               [(Identifier (Uid (Suc (uid s)) ''value''),
                 Some (ConditionalExpression
                         (if condition \<noteq> None then eq
                          else BinaryExpression ''in'' (NumericLiteral 0) (Identifier header))
                         pos (AssignmentExpression ''='' pos (Identifier b))))])])"
    unfolding r_def using createMemo_fresh[OF fresh, of dependencies type]
    by (simp add: mh mu sl Let_def)
  have B2: "expr (fst r) = Identifier (Uid (Suc (uid s)) ''value'')"
    unfolding r_def by (simp add: createMemo_expr[OF fresh] mu)
  have B3: "slotCount type (scope (snd r)) = 1"
    unfolding r_def by (simp add: createMemo_slotCount[OF fresh] sl)
  have B4: "(if inLoop then loop (scope (snd r)) ''undefined''
          else if type = TMemo then memo (scope (snd r)) else ref (scope (snd r))) = Some header"
    unfolding r_def using createMemo_header_recorded[OF fresh, of dependencies type]
    by (simp add: loop mh)
  have B5: "parents (snd r) = scope s # parents s"
    unfolding r_def by (simp add: ps)
  have B6: "h \<noteq> header \<and> h \<noteq> Uid (Suc (uid s)) ''value''" if "generatedBefore (uid s) h" for h
    using that by (auto simp: generatedBefore_def header_def)
  have B7: "fst (getMemoDeclarations (scope (snd r)) (parents (snd r)) (uid (snd r))) =
              Some [VariableDeclaration ''let''
                      [(Identifier header,
                        Some (CallExpression (getImportIdentifier RUNTIME_BRANCH)
                                [Identifier (fst (createHeader TMemo (scope s) (uid (snd r)))),
                                 NumericLiteral (of_nat (indecesMemo (scope s))),
                                 NumericLiteral 1]))]]"
    if "\<not> inLoop" and "type = TMemo"
  proof -
    have m: "memo (scope (snd r)) = Some header"
      using B4 that by simp
    have i: "indecesMemo (scope (snd r)) = 1"
      using B3 that by (simp add: slotCount_def)
    show ?thesis
      by (simp add: getMemoDeclarations_def m i B5 Let_def split_beta createHeader_def
            createIndex_def generateUidIdentifier_def split: option.splits)
  qed
  have C: "deleteOptimized key (scope s) (parents s) =
           (hd ((scope s # parents s)[n := withoutOptimized key ((scope s # parents s) ! n)]),
            tl ((scope s # parents s)[n := withoutOptimized key ((scope s # parents s) ! n)]))"
    if "n < length (scope s # parents s)"
      and "\<forall>m<n. getOptimized key ((scope s # parents s) ! m) = None"
      and "getOptimized key ((scope s # parents s) ! n) \<noteq> None" for key n
    using deleteOptimized_parents_first[of n "scope s # parents s" key] that
    by (simp add: deleteOptimized_chain getOptimized_def)
  show ?thesis
    unfolding Let_def
    using A B1 B2 B3 B4 B5 B6 B7 C
    unfolding Let_def r_def child_def header_def
    by blast
qed


theorem createMemo_per_scope_witness:
  "let s1 = snd (createMemo (Identifier (Src 1 ''x'')) (Flag False) TMemo Optimizer);
       child = enterScope False s1;
       r = createMemo (Identifier (Src 1 ''x'')) (Flag False) TMemo child;
       s3 = Optimizer\<lparr>parents :=
              [OptimizerScope True,
               setOptimized (Src 1 ''x'') (fst r) (OptimizerScope False),
               setOptimized (Src 1 ''x'') (fst r) (OptimizerScope False)]\<rparr>
   in memo (scope s1) = Some (Uid 0 ''cache'') \<and>
      pushed Optimizer s1 =
        [VariableDeclaration ''let''
           [(Identifier (Uid 2 ''equals''),
             Some (CallExpression (Identifier (Runtime ''equals''))
                     [Identifier (Uid 0 ''cache''), NumericLiteral 0, Identifier (Src 1 ''x'')])),
            (Identifier (Uid 1 ''value''),
             Some (ConditionalExpression (Identifier (Uid 2 ''equals''))
                     (MemberExpression (Identifier (Uid 0 ''cache'')) (NumericLiteral 0) True)
                     (AssignmentExpression ''=''
                        (MemberExpression (Identifier (Uid 0 ''cache'')) (NumericLiteral 0) True)
                        (Identifier (Src 1 ''x'')))))]] \<and>
      pushed child (snd r) =
        [VariableDeclaration ''let''
           [(Identifier (Uid 5 ''equals''),
             Some (CallExpression (Identifier (Runtime ''equals''))
                     [Identifier (Uid 3 ''cache''), NumericLiteral 0, Identifier (Src 1 ''x'')])),
            (Identifier (Uid 4 ''value''),
             Some (ConditionalExpression (Identifier (Uid 5 ''equals''))
                     (MemberExpression (Identifier (Uid 3 ''cache'')) (NumericLiteral 0) True)
                     (AssignmentExpression ''=''
                        (MemberExpression (Identifier (Uid 3 ''cache'')) (NumericLiteral 0) True)
                        (Identifier (Src 1 ''x'')))))]] \<and>
      expr (fst r) = Identifier (Uid 4 ''value'') \<and>
      memo (scope (snd r)) = Some (Uid 3 ''cache'') \<and>
      parents (snd r) = [scope s1] \<and>
      fst (getMemoDeclarations (scope (snd r)) (parents (snd r)) (uid (snd r))) =
        Some [VariableDeclaration ''let''
                [(Identifier (Uid 3 ''cache''),
                  Some (CallExpression (Identifier (Runtime ''branch''))
                          [Identifier (Uid 0 ''cache''), NumericLiteral 1, NumericLiteral 1]))]] \<and>
      deleteOptimized (Src 1 ''x'') (scope s3) (parents s3) =
        (scope s3,
         [OptimizerScope True, OptimizerScope False,
          setOptimized (Src 1 ''x'') (fst r) (OptimizerScope False)])"
proof -
  define s1 where "s1 = snd (createMemo (Identifier (Src 1 ''x'')) (Flag False) TMemo Optimizer)"
  define r where "r = createMemo (Identifier (Src 1 ''x'')) (Flag False) TMemo (enterScope False s1)"
  define s3 where "s3 = Optimizer\<lparr>parents :=
              [OptimizerScope True,
               setOptimized (Src 1 ''x'') (fst r) (OptimizerScope False),
               setOptimized (Src 1 ''x'') (fst r) (OptimizerScope False)]\<rparr>"
  have f: "uid s1 = 3" "getOptimized (Src 1 ''x'') (scope s1) \<noteq> None"
    "memo (scope s1) = Some (Uid 0 ''cache'')" "indecesMemo (scope s1) = 1" "parents s1 = []"
    unfolding s1_def by code_simp+
  have p: "pushed Optimizer s1 =
        [VariableDeclaration ''let''
           [(Identifier (Uid 2 ''equals''),
             Some (CallExpression (Identifier (Runtime ''equals''))
                     [Identifier (Uid 0 ''cache''), NumericLiteral 0, Identifier (Src 1 ''x'')])),
            (Identifier (Uid 1 ''value''),
             Some (ConditionalExpression (Identifier (Uid 2 ''equals''))
                     (MemberExpression (Identifier (Uid 0 ''cache'')) (NumericLiteral 0) True)
                     (AssignmentExpression ''=''
                        (MemberExpression (Identifier (Uid 0 ''cache'')) (NumericLiteral 0) True)
                        (Identifier (Src 1 ''x'')))))]]"
    unfolding s1_def by code_simp
  have g: "scope s3 = OptimizerScope False"
    "parents s3 = [OptimizerScope True,
               setOptimized (Src 1 ''x'') (fst r) (OptimizerScope False),
               setOptimized (Src 1 ''x'') (fst r) (OptimizerScope False)]"
    by (simp_all add: s3_def Optimizer_def)
  have d: "deleteOptimized (Src 1 ''x'') (scope s3) (parents s3) =
        (scope s3,
         [OptimizerScope True, OptimizerScope False,
          setOptimized (Src 1 ''x'') (fst r) (OptimizerScope False)])"
    using createMemo_per_scope[where s = s3 and inLoop = False and b = "Src 1 ''x''"
            and dependencies = "Flag False" and type = TMemo, unfolded Let_def,
            THEN conjunct2, THEN conjunct2, rule_format, of 2 "Src 1 ''x''"]
    by (simp add: g getOptimized_def setOptimized_def OptimizerScope_def withoutOptimized_def
          nth_Cons' less_Suc_eq)
  show ?thesis
    unfolding Let_def s1_def[symmetric] r_def[symmetric] s3_def[symmetric]
    using createMemo_per_scope[where s = s1 and inLoop = False and b = "Src 1 ''x''"
            and dependencies = "Flag False" and type = TMemo, unfolded Let_def,
            THEN conjunct2, THEN conjunct1, folded r_def] f p d
    by (auto simp: createMemoCondition_def getImportIdentifier_def RUNTIME_EQUALS_def
          RUNTIME_BRANCH_def createHeader_def)
qed

section \<open>Statements that carry the skip marker\<close>

text \<open>
  Claim C3 says that a statement carrying the skip marker is emitted unchanged. In the
  code \<open>optimizeStatement\<close> (and \<open>optimizeBlock\<close>) returns before the statement is
  pushed: the state is unchanged, so the statement is in no scope's statement list and
  does not reach the output.
\<close>

theorem skipped_statement_not_pushed:
  "shouldSkipStatement env path \<Longrightarrow>
     optimizeStatement env path topBlock s = s \<and> optimizeBlock f env path s = s"
  by (simp add: optimizeStatement.simps optimizeBlock_def)

theorem skipped_statement_not_pushed_witness:
  "shouldSkipStatement
     ((componentEnv [] [])
        \<lparr>shouldSkipStatement := (\<lambda>st. st = ExpressionStatement (CallExpression (Identifier (Src 1 ''log'')) []))\<rparr>)
     (ExpressionStatement (CallExpression (Identifier (Src 1 ''log'')) [])) \<and>
   statements (scope (optimizeStatement
     ((componentEnv [] [])
        \<lparr>shouldSkipStatement := (\<lambda>st. st = ExpressionStatement (CallExpression (Identifier (Src 1 ''log'')) []))\<rparr>)
     (ExpressionStatement (CallExpression (Identifier (Src 1 ''log'')) [])) False Optimizer)) = []"
  using skipped_statement_not_pushed
          [where env = "(componentEnv [] [])
             \<lparr>shouldSkipStatement := (\<lambda>st. st = ExpressionStatement (CallExpression (Identifier (Src 1 ''log'')) []))\<rparr>"
             and path = "ExpressionStatement (CallExpression (Identifier (Src 1 ''log'')) [])"
             and topBlock = False and s = Optimizer]
  by (simp add: Optimizer_def OptimizerScope_def)

text \<open>
  The component \<open>function C() { /* skip */ log(); return; }\<close>: the body that
  \<open>optimize\<close> returns holds the \<open>return\<close> statement only.
\<close>

lemma skipped_statement_component:
  "fst (optimize
     ((componentEnv [] [])
        \<lparr>shouldSkipStatement := (\<lambda>st. st = ExpressionStatement (CallExpression (Identifier (Src 1 ''log'')) []))\<rparr>)
     (FunctionComponent
        (BlockStatement
           [ExpressionStatement (CallExpression (Identifier (Src 1 ''log'')) []),
            ReturnStatement None]))
     Optimizer) = BlockStatement [ReturnStatement None]"
  by code_simp

section \<open>Memo and ref headers in a loop body\<close>

text \<open>
  In a scope that is a loop body \<open>createMemo\<close> calls \<open>createLoopHeader()\<close> without
  the cache type, so the header it selects is the same for both caches.
\<close>

lemma memoHeader_loop: "isInLoop (scope s) \<Longrightarrow> memoHeader TMemo s = memoHeader TRef s"
  by (simp add: memoHeader_def)

text \<open>
  Claim C2 says that memo and ref accesses never share a header. For the component
  \<open>function C(p) { for (;;) { p; useRef(0); } }\<close> the memo access for \<open>p\<close> and the
  ref access for the \<open>useRef\<close> object both go through the header \<open>loop\<close> of the
  loop body, and both use slot 0 of it. That header is declared nowhere in the output.
\<close>

theorem loop_body_shares_header:
  "fst (optimize (componentEnv [(''p'', Src 1 ''p'')] [(''useRef'', HRef)])
     (FunctionComponent
        (BlockStatement
           [ForStatement '';;''
              (BlockStatement
                 [ExpressionStatement (Identifier (Src 2 ''p'')),
                  ExpressionStatement
                    (CallExpression (Identifier (Src 3 ''useRef'')) [NumericLiteral 0])])]))
     Optimizer) =
   BlockStatement
     [VariableDeclaration ''let''
        [(Identifier (Uid 4 ''cache''),
          Some (CallExpression (Identifier (Runtime ''cache''))
                  [Identifier (Runtime ''useMemo''), NumericLiteral 1])),
         (Identifier (Uid 6 ''cache''),
          Some (CallExpression (Identifier (Runtime ''branch''))
                  [Identifier (Uid 4 ''cache''), NumericLiteral 0, NumericLiteral 0])),
         (Identifier (Uid 5 ''id''), Some (NumericLiteral 0))],
      ForStatement '';;''
        (BlockStatement
           [VariableDeclaration ''let''
              [(Identifier (Uid 2 ''equals''),
                Some (CallExpression (Identifier (Runtime ''equals''))
                        [Identifier (Uid 0 ''loop''), NumericLiteral 0, Identifier (Src 1 ''p'')])),
               (Identifier (Uid 1 ''value''),
                Some (ConditionalExpression (Identifier (Uid 2 ''equals''))
                        (MemberExpression (Identifier (Uid 0 ''loop'')) (NumericLiteral 0) True)
                        (AssignmentExpression ''=''
                           (MemberExpression (Identifier (Uid 0 ''loop'')) (NumericLiteral 0) True)
                           (Identifier (Src 1 ''p'')))))],
            ExpressionStatement (Identifier (Uid 1 ''value'')),
            VariableDeclaration ''let''
              [(Identifier (Uid 3 ''value''),
                Some (ConditionalExpression
                        (BinaryExpression ''in'' (NumericLiteral 0) (Identifier (Uid 0 ''loop'')))
                        (MemberExpression (Identifier (Uid 0 ''loop'')) (NumericLiteral 0) True)
                        (AssignmentExpression ''=''
                           (MemberExpression (Identifier (Uid 0 ''loop'')) (NumericLiteral 0) True)
                           (ObjectExpression
                              [ObjectProperty (Identifier (Plain ''current''))
                                 (NumericLiteral 0) False]))))],
            ExpressionStatement (Identifier (Uid 3 ''value''))])]"
  by code_simp

section \<open>What a walk leaves untouched\<close>

text \<open>
  While a scope is current, the walk changes nothing in the ancestors of that scope but
  their tables of optimized identifiers (through \<open>deleteOptimized\<close>), and it does not
  change whether the current scope is a loop body. \<open>shape\<close> is the part of the state
  that every walk preserves.
\<close>

definition frameView :: "scope \<Rightarrow> scope" where
  "frameView sc = sc\<lparr>optimizedID := Map.empty\<rparr>"

definition shape :: "optimizer \<Rightarrow> bool \<times> scope list" where
  "shape s = (isInLoop (scope s), map frameView (parents s))"

lemma isInLoop_frameView [simp]: "isInLoop (frameView sc) = isInLoop sc"
  by (simp add: frameView_def)

lemma inLoop_shape: "isInLoop (scope s) = fst (shape s)"
  by (simp add: shape_def)

lemma shape_updates [simp]:
  "shape (s\<lparr>uid := u\<rparr>) = shape s"
  "shape (s\<lparr>dependency := d\<rparr>) = shape s"
  "shape (s\<lparr>nodeConstantCheckCache := c\<rparr>) = shape s"
  by (simp_all add: shape_def)

lemma shape_scope_update:
  "isInLoop sc = isInLoop (scope s) \<Longrightarrow> shape (s\<lparr>scope := sc\<rparr>) = shape s"
  by (simp add: shape_def)

lemma isInLoop_createHeader [simp]: "isInLoop (fst (snd (createHeader type sc u))) = isInLoop sc"
  by (simp add: createHeader_def generateUidIdentifier_def split: cache_type.splits option.splits)

lemma isInLoop_createLoopHeader [simp]:
  "isInLoop (fst (snd (createLoopHeader type sc u))) = isInLoop sc"
  by (simp add: createLoopHeader_def generateUidIdentifier_def split: option.splits)

lemma isInLoop_createLoopIndex [simp]: "isInLoop (fst (snd (createLoopIndex sc u))) = isInLoop sc"
  by (simp add: createLoopIndex_def generateUidIdentifier_def split: option.splits)

lemma isInLoop_createIndex [simp]: "isInLoop (snd (createIndex type sc)) = isInLoop sc"
  by (simp add: createIndex_def Let_def)

lemma shape_isConstant [simp]: "shape (snd (isConstant env path s)) = shape s"
  by (simp add: isConstant_def Let_def split: option.splits)

lemma isInLoop_createMemo [simp]:
  "isInLoop (scope (snd (createMemo current dependencies type s))) = isInLoop (scope s)"
  by (cases current)
     (simp_all add: createMemo_def Let_def split_beta push_def addConstant_def setOptimized_def
      split: option.splits)

lemma shape_createMemo [simp]: "shape (snd (createMemo current dependencies type s)) = shape s"
  by (simp add: shape_def)

lemma shape_pushStatements [simp]: "shape (pushStatements sts s) = shape s"
  by (simp add: pushStatements_def push_def shape_def)

lemma shape_enterScope [simp]:
  "shape (enterScope inLoop s) = (inLoop, frameView (scope s) # snd (shape s))"
  by (simp add: enterScope_def shape_def OptimizerScope_def)

lemma shape_leaveScope [simp]:
  "shape (snd (leaveScope s)) =
     (case snd (shape s) of [] \<Rightarrow> shape s | v # vs \<Rightarrow> (isInLoop v, vs))"
  by (simp add: leaveScope_def shape_def split: list.splits)

lemma getMemoDeclarations_parents:
  "fst (snd (snd (getMemoDeclarations this ps u))) =
     (case ps of
        [] \<Rightarrow> []
      | p # rest \<Rightarrow>
          (if memo this = None then p
           else snd (createIndex TMemo (fst (snd (createHeader TMemo p u))))) # rest)"
  by (simp add: getMemoDeclarations_def Let_def split_beta split: option.splits list.splits)

lemma getRefDeclarations_parents:
  "fst (snd (snd (getRefDeclarations this ps u))) =
     (case ps of
        [] \<Rightarrow> []
      | p # rest \<Rightarrow>
          (if ref this = None then p
           else snd (createIndex TRef (fst (snd (createHeader TRef p u))))) # rest)"
  by (simp add: getRefDeclarations_def Let_def split_beta split: option.splits list.splits)

lemma getStatements_parents:
  "\<exists>p'. fst (snd (snd (getStatements this (p # rest) u))) = p' # rest \<and>
        isInLoop p' = isInLoop p"
  by (auto simp: getStatements_def Let_def split_beta getMemoDeclarations_parents
        getRefDeclarations_parents
      split: list.splits)

lemma shape_childStatements [simp]: "shape (snd (childStatements child s)) = shape s"
proof -
  obtain p' where "fst (snd (snd (getStatements child (scope s # parents s) (uid s)))) = p' # parents s"
    and "isInLoop p' = isInLoop (scope s)"
    using getStatements_parents by blast
  then show ?thesis
    by (simp add: childStatements_def Let_def split_beta shape_def)
qed

lemma deleteOptimized_parents_view:
  "map frameView (deleteOptimized_parents key chain) = map frameView chain"
  by (induction chain) (simp_all add: frameView_def)

lemma deleteOptimized_parents_isInLoop:
  "map isInLoop (deleteOptimized_parents key chain) = map isInLoop chain"
  by (induction chain) simp_all

lemma shape_deleteOptimized:
  "shape (s\<lparr>scope := fst (deleteOptimized key (scope s) (parents s)),
            parents := snd (deleteOptimized key (scope s) (parents s))\<rparr>) = shape s"
proof -
  have "map frameView (deleteOptimized_parents key (scope s # parents s)) =
        map frameView (scope s # parents s)"
       "map isInLoop (deleteOptimized_parents key (scope s # parents s)) =
        map isInLoop (scope s # parents s)"
    by (rule deleteOptimized_parents_view, rule deleteOptimized_parents_isInLoop)
  then show ?thesis
    by (cases "deleteOptimized_parents key (scope s # parents s)")
       (simp_all add: deleteOptimized_def shape_def)
qed

lemma shape_memoizeIdentifier [simp]: "shape (snd (memoizeIdentifier env path i s)) = shape s"
  by (simp add: memoizeIdentifier_def split: option.splits)

lemma shape_optimizeIdentifier [simp]: "shape (snd (optimizeIdentifier env i s)) = shape s"
  by (simp add: optimizeIdentifier_def)

lemma shape_memoizeBindings [simp]:
  "shape (snd (memoizeBindings env path bindings dependencies s)) = shape s"
  by (induction bindings arbitrary: dependencies s) (simp_all add: Let_def split_beta)

lemma shape_optimizeFunctionExpression [simp]:
  "shape (snd (optimizeFunctionExpression env path s)) = shape s"
  by (simp add: optimizeFunctionExpression_def Let_def split_beta)

lemma shape_optimizeRef [simp]: "shape (snd (optimizeRef arguments s)) = shape s"
  by (simp add: optimizeRef_def Let_def)

text \<open>A walk that preserves the shape on all nodes below a size.\<close>

definition framed :: "nat \<Rightarrow> expression_walk \<Rightarrow> bool" where
  "framed n f \<longleftrightarrow> (\<forall>x t. size x < n \<longrightarrow> shape (snd (f x t)) = shape t)"

lemma framed_mono: "framed n f \<Longrightarrow> m \<le> n \<Longrightarrow> framed m f"
  by (simp add: framed_def)

lemma framedD: "framed n f \<Longrightarrow> size x < n \<Longrightarrow> shape (snd (f x t)) = shape t"
  by (simp add: framed_def)

lemma shape_createDependency:
  assumes "framed (Suc (size path)) f"
  shows "shape (snd (createDependency f env path s)) = shape s"
  using framedD[OF assms, of path s]
  by (simp add: createDependency_def Let_def split_beta split: option.splits)

lemma shape_memoizeMemberExpression:
  assumes "framed (Suc (size obj + size prop)) f"
  shows "shape (snd (memoizeMemberExpression f env obj prop computed s)) = shape s"
proof -
  have base: "\<And>x t. size x < Suc (size obj + size prop) \<Longrightarrow> shape (snd (f x t)) = shape t"
    by (rule framedD[OF assms])
  have h1: "\<And>ypath t. Suc (size ypath) \<le> Suc (size obj + size prop) \<Longrightarrow>
      shape (snd (createDependency f env ypath t)) = shape t"
    by (rule shape_createDependency[OF framed_mono[OF assms]])
  show ?thesis
    by (simp add: memoizeMemberExpression_def Let_def split_beta inLoop_shape base h1
        split: option.splits list.splits hook_call_type.splits)
qed

lemma shape_optimizeMemberExpression:
  assumes "framed (Suc (size obj + size prop)) f"
  shows "shape (snd (optimizeMemberExpression f env obj prop computed s)) = shape s"
proof -
  have base: "\<And>x t. size x < Suc (size obj + size prop) \<Longrightarrow> shape (snd (f x t)) = shape t"
    by (rule framedD[OF assms])
  have h1: "\<And>yobj yprop ycomputed t. Suc (size yobj + size yprop) \<le> Suc (size obj + size prop) \<Longrightarrow>
      shape (snd (memoizeMemberExpression f env yobj yprop ycomputed t)) = shape t"
    by (rule shape_memoizeMemberExpression[OF framed_mono[OF assms]])
  show ?thesis
    by (simp add: optimizeMemberExpression_def Let_def split_beta inLoop_shape base h1
        split: option.splits list.splits hook_call_type.splits)
qed

lemma shape_optimizeConditionalExpression:
  assumes "framed (Suc (size test + size consequent + size alternate)) f"
  shows "shape (snd (optimizeConditionalExpression f env test consequent alternate s)) = shape s"
proof -
  have base: "\<And>x t. size x < Suc (size test + size consequent + size alternate) \<Longrightarrow> shape (snd (f x t)) = shape t"
    by (rule framedD[OF assms])
  show ?thesis
    by (simp add: optimizeConditionalExpression_def Let_def split_beta inLoop_shape base
        split: option.splits list.splits hook_call_type.splits)
qed

lemma shape_optimizeBinaryExpression:
  assumes "framed (Suc (size left + size right)) f"
  shows "shape (snd (optimizeBinaryExpression f env operator left right s)) = shape s"
proof -
  have base: "\<And>x t. size x < Suc (size left + size right) \<Longrightarrow> shape (snd (f x t)) = shape t"
    by (rule framedD[OF assms])
  have h1: "\<And>ypath t. Suc (size ypath) \<le> Suc (size left + size right) \<Longrightarrow>
      shape (snd (createDependency f env ypath t)) = shape t"
    by (rule shape_createDependency[OF framed_mono[OF assms]])
  show ?thesis
    by (simp add: optimizeBinaryExpression_def Let_def split_beta inLoop_shape base h1
        split: option.splits list.splits hook_call_type.splits)
qed

lemma shape_optimizeLogicalExpression:
  assumes "framed (Suc (size left + size right)) f"
  shows "shape (snd (optimizeLogicalExpression f env operator left right s)) = shape s"
proof -
  have base: "\<And>x t. size x < Suc (size left + size right) \<Longrightarrow> shape (snd (f x t)) = shape t"
    by (rule framedD[OF assms])
  show ?thesis
    by (simp add: optimizeLogicalExpression_def Let_def split_beta inLoop_shape base
        split: option.splits list.splits hook_call_type.splits)
qed

lemma shape_optimizeUnaryExpression:
  assumes "framed (Suc (size argument)) f"
  shows "shape (snd (optimizeUnaryExpression f env operator argument s)) = shape s"
proof -
  have base: "\<And>x t. size x < Suc (size argument) \<Longrightarrow> shape (snd (f x t)) = shape t"
    by (rule framedD[OF assms])
  have h1: "\<And>ypath t. Suc (size ypath) \<le> Suc (size argument) \<Longrightarrow>
      shape (snd (createDependency f env ypath t)) = shape t"
    by (rule shape_createDependency[OF framed_mono[OF assms]])
  show ?thesis
    by (simp add: optimizeUnaryExpression_def Let_def split_beta inLoop_shape base h1
        split: option.splits list.splits hook_call_type.splits)
qed

lemma shape_optimizeEffect:
  assumes "framed (Suc (size callee + size_list size arguments)) f"
  shows "shape (snd (optimizeEffect f env callee arguments s)) = shape s"
proof -
  have base: "\<And>x t. size x < Suc (size callee + size_list size arguments) \<Longrightarrow> shape (snd (f x t)) = shape t"
    by (rule framedD[OF assms])
  show ?thesis
    by (cases arguments; cases "tl arguments")
       (simp_all add: optimizeEffect_def Let_def split_beta inLoop_shape base
        split: option.splits list.splits hook_call_type.splits)
qed

lemma shape_optimizeCallback:
  assumes "framed (Suc (size callee + size_list size arguments)) f"
  shows "shape (snd (optimizeCallback f env callee arguments s)) = shape s"
proof -
  have base: "\<And>x t. size x < Suc (size callee + size_list size arguments) \<Longrightarrow> shape (snd (f x t)) = shape t"
    by (rule framedD[OF assms])
  show ?thesis
    by (cases arguments; cases "tl arguments")
       (simp_all add: optimizeCallback_def Let_def split_beta inLoop_shape base
        split: option.splits list.splits hook_call_type.splits)
qed

lemma shape_optimizeMemo:
  assumes "framed (Suc (size callee + size_list size arguments)) f"
  shows "shape (snd (optimizeMemo f env callee arguments s)) = shape s"
proof -
  have base: "\<And>x t. size x < Suc (size callee + size_list size arguments) \<Longrightarrow> shape (snd (f x t)) = shape t"
    by (rule framedD[OF assms])
  show ?thesis
    by (cases arguments; cases "tl arguments")
       (simp_all add: optimizeMemo_def Let_def split_beta inLoop_shape base
        split: option.splits list.splits hook_call_type.splits)
qed

lemma shape_optimizeHookCallee:
  assumes "framed (Suc (size callee)) f"
  shows "shape (snd (optimizeHookCallee f env callee condition s)) = shape s"
proof -
  have base: "\<And>x t. size x < Suc (size callee) \<Longrightarrow> shape (snd (f x t)) = shape t"
    by (rule framedD[OF assms])
  have h1: "\<And>ypath t. Suc (size ypath) \<le> Suc (size callee) \<Longrightarrow>
      shape (snd (createDependency f env ypath t)) = shape t"
    by (rule shape_createDependency[OF framed_mono[OF assms]])
  have h2: "\<And>yobj yprop ycomputed t. Suc (size yobj + size yprop) \<le> Suc (size callee) \<Longrightarrow>
      shape (snd (memoizeMemberExpression f env yobj yprop ycomputed t)) = shape t"
    by (rule shape_memoizeMemberExpression[OF framed_mono[OF assms]])
  show ?thesis
    by (cases callee)
       (simp_all add: optimizeHookCallee_def Let_def split_beta inLoop_shape base h1 h2
        split: option.splits list.splits hook_call_type.splits)
qed

lemma shape_optimizeSpreadElement:
  assumes "framed (Suc (size argument)) f"
  shows "shape (snd (optimizeSpreadElement f env argument condition s)) = shape s"
proof -
  have base: "\<And>x t. size x < Suc (size argument) \<Longrightarrow> shape (snd (f x t)) = shape t"
    by (rule framedD[OF assms])
  have h1: "\<And>ypath t. Suc (size ypath) \<le> Suc (size argument) \<Longrightarrow>
      shape (snd (createDependency f env ypath t)) = shape t"
    by (rule shape_createDependency[OF framed_mono[OF assms]])
  show ?thesis
    by (simp add: optimizeSpreadElement_def Let_def split_beta inLoop_shape base h1
        split: option.splits list.splits hook_call_type.splits)
qed

lemma shape_optimizeHookArguments:
  "framed (Suc (size_list size arguments)) f \<Longrightarrow>
   shape (snd (optimizeHookArguments f env arguments condition s)) = shape s"
proof (induction arguments arbitrary: condition s)
  case Nil
  show ?case by simp
next
  case (Cons el rest)
  have A: "framed (Suc (size_list size (el # rest))) f"
    using Cons.prems by simp
  have IH: "\<And>ccondition t. shape (snd (optimizeHookArguments f env rest ccondition t)) = shape t"
    by (rule Cons.IH[OF framed_mono[OF A]]) simp
  have base: "\<And>x t. size x < Suc (size_list size (el # rest)) \<Longrightarrow> shape (snd (f x t)) = shape t"
    by (rule framedD[OF A])
  have h1: "\<And>ypath t. Suc (size ypath) \<le> Suc (size_list size (el # rest)) \<Longrightarrow>
      shape (snd (createDependency f env ypath t)) = shape t"
    by (rule shape_createDependency[OF framed_mono[OF A]])
  have h2: "\<And>yargument ycondition t. Suc (size yargument) \<le> Suc (size_list size (el # rest)) \<Longrightarrow>
      shape (snd (optimizeSpreadElement f env yargument ycondition t)) = shape t"
    by (rule shape_optimizeSpreadElement[OF framed_mono[OF A]])
  show ?case
    by (cases el)
       (simp_all add:  Let_def split_beta inLoop_shape IH base h1 h2
        split: option.splits list.splits hook_call_type.splits)
qed

lemma shape_optimizeCustomHookCall:
  assumes "framed (Suc (size callee + size_list size arguments)) f"
  shows "shape (snd (optimizeCustomHookCall f env callee arguments hookType s)) = shape s"
proof -
  have base: "\<And>x t. size x < Suc (size callee + size_list size arguments) \<Longrightarrow> shape (snd (f x t)) = shape t"
    by (rule framedD[OF assms])
  have h1: "\<And>ycallee ycondition t. Suc (size ycallee) \<le> Suc (size callee + size_list size arguments) \<Longrightarrow>
      shape (snd (optimizeHookCallee f env ycallee ycondition t)) = shape t"
    by (rule shape_optimizeHookCallee[OF framed_mono[OF assms]])
  have h2: "\<And>yarguments ycondition t. Suc (size_list size yarguments) \<le> Suc (size callee + size_list size arguments) \<Longrightarrow>
      shape (snd (optimizeHookArguments f env yarguments ycondition t)) = shape t"
    by (rule shape_optimizeHookArguments[OF framed_mono[OF assms]])
  show ?thesis
    by (simp add: optimizeCustomHookCall_def Let_def split_beta inLoop_shape base h1 h2
        split: option.splits list.splits hook_call_type.splits)
qed

lemma shape_optimizeCallExpression:
  assumes "framed (Suc (size callee + size_list size arguments)) f"
  shows "shape (snd (optimizeCallExpression f env callee arguments s)) = shape s"
proof -
  have base: "\<And>x t. size x < Suc (size callee + size_list size arguments) \<Longrightarrow> shape (snd (f x t)) = shape t"
    by (rule framedD[OF assms])
  have h1: "\<And>ycallee yarguments t. Suc (size ycallee + size_list size yarguments) \<le> Suc (size callee + size_list size arguments) \<Longrightarrow>
      shape (snd (optimizeCallback f env ycallee yarguments t)) = shape t"
    by (rule shape_optimizeCallback[OF framed_mono[OF assms]])
  have h2: "\<And>ycallee yarguments t. Suc (size ycallee + size_list size yarguments) \<le> Suc (size callee + size_list size arguments) \<Longrightarrow>
      shape (snd (optimizeEffect f env ycallee yarguments t)) = shape t"
    by (rule shape_optimizeEffect[OF framed_mono[OF assms]])
  have h3: "\<And>ycallee yarguments t. Suc (size ycallee + size_list size yarguments) \<le> Suc (size callee + size_list size arguments) \<Longrightarrow>
      shape (snd (optimizeMemo f env ycallee yarguments t)) = shape t"
    by (rule shape_optimizeMemo[OF framed_mono[OF assms]])
  have h4: "\<And>ycallee yarguments yhookType t. Suc (size ycallee + size_list size yarguments) \<le> Suc (size callee + size_list size arguments) \<Longrightarrow>
      shape (snd (optimizeCustomHookCall f env ycallee yarguments yhookType t)) = shape t"
    by (rule shape_optimizeCustomHookCall[OF framed_mono[OF assms]])
  show ?thesis
    by (simp add: optimizeCallExpression_def Let_def split_beta inLoop_shape base h1 h2 h3 h4
        split: option.splits list.splits hook_call_type.splits)
qed

lemma shape_optimizeLVal:
  assumes "framed (Suc (size path)) f"
  shows "shape (snd (optimizeLVal f env path dirty s)) = shape s"
proof -
  have base: "\<And>x t. size x < Suc (size path) \<Longrightarrow> shape (snd (f x t)) = shape t"
    by (rule framedD[OF assms])
  have h1: "\<And>yobj yprop ycomputed t. Suc (size yobj + size yprop) \<le> Suc (size path) \<Longrightarrow>
      shape (snd (memoizeMemberExpression f env yobj yprop ycomputed t)) = shape t"
    by (rule shape_memoizeMemberExpression[OF framed_mono[OF assms]])
  show ?thesis
    by (cases path)
       (simp_all add: optimizeLVal_def Let_def split_beta inLoop_shape base h1 shape_deleteOptimized
        split: option.splits list.splits hook_call_type.splits)
qed

lemma shape_optimizeAssignmentExpression:
  assumes "framed (Suc (size left + size right)) f"
  shows "shape (snd (optimizeAssignmentExpression f env operator left right s)) = shape s"
proof -
  have base: "\<And>x t. size x < Suc (size left + size right) \<Longrightarrow> shape (snd (f x t)) = shape t"
    by (rule framedD[OF assms])
  have h1: "\<And>ypath ydirty t. Suc (size ypath) \<le> Suc (size left + size right) \<Longrightarrow>
      shape (snd (optimizeLVal f env ypath ydirty t)) = shape t"
    by (rule shape_optimizeLVal[OF framed_mono[OF assms]])
  have h2: "\<And>ypath t. Suc (size ypath) \<le> Suc (size left + size right) \<Longrightarrow>
      shape (snd (createDependency f env ypath t)) = shape t"
    by (rule shape_createDependency[OF framed_mono[OF assms]])
  show ?thesis
    by (simp add: optimizeAssignmentExpression_def Let_def split_beta inLoop_shape base h1 h2
        split: option.splits list.splits hook_call_type.splits)
qed

lemma shape_optimizeArrayElements:
  "framed (Suc (size_list (size_option size) elements)) f \<Longrightarrow>
   shape (snd (optimizeArrayElements f env elements condition s)) = shape s"
proof (induction elements arbitrary: condition s)
  case Nil
  show ?case by simp
next
  case (Cons el rest)
  have A: "framed (Suc (size_list (size_option size) (el # rest))) f"
    using Cons.prems by simp
  have IH: "\<And>ccondition t. shape (snd (optimizeArrayElements f env rest ccondition t)) = shape t"
    by (rule Cons.IH[OF framed_mono[OF A]]) simp
  have base: "\<And>x t. size x < Suc (size_list (size_option size) (el # rest)) \<Longrightarrow> shape (snd (f x t)) = shape t"
    by (rule framedD[OF A])
  have h1: "\<And>ypath t. Suc (size ypath) \<le> Suc (size_list (size_option size) (el # rest)) \<Longrightarrow>
      shape (snd (createDependency f env ypath t)) = shape t"
    by (rule shape_createDependency[OF framed_mono[OF A]])
  have h2: "\<And>yargument ycondition t. Suc (size yargument) \<le> Suc (size_list (size_option size) (el # rest)) \<Longrightarrow>
      shape (snd (optimizeSpreadElement f env yargument ycondition t)) = shape t"
    by (rule shape_optimizeSpreadElement[OF framed_mono[OF A]])
  show ?case
  proof (cases el)
    case None
    then show ?thesis
      by (simp add:  Let_def split_beta inLoop_shape IH base h1 h2)
  next
    case (Some e)
    then show ?thesis
      by (cases e)
         (simp_all add:  Let_def split_beta inLoop_shape IH base h1 h2
          split: option.splits list.splits hook_call_type.splits)
  qed
qed

lemma shape_optimizeArrayExpression:
  assumes "framed (Suc (size_list (size_option size) elements)) f"
  shows "shape (snd (optimizeArrayExpression f env tuple elements s)) = shape s"
proof -
  have base: "\<And>x t. size x < Suc (size_list (size_option size) elements) \<Longrightarrow> shape (snd (f x t)) = shape t"
    by (rule framedD[OF assms])
  have h1: "\<And>yelements ycondition t. Suc (size_list (size_option size) yelements) \<le> Suc (size_list (size_option size) elements) \<Longrightarrow>
      shape (snd (optimizeArrayElements f env yelements ycondition t)) = shape t"
    by (rule shape_optimizeArrayElements[OF framed_mono[OF assms]])
  show ?thesis
    by (simp add: optimizeArrayExpression_def Let_def split_beta inLoop_shape base h1
        split: option.splits list.splits hook_call_type.splits)
qed

lemma shape_optimizeObjectProperty:
  assumes "framed (Suc (size key + size v)) f"
  shows "shape (snd (optimizeObjectProperty f env key v computed condition s)) = shape s"
proof -
  have base: "\<And>x t. size x < Suc (size key + size v) \<Longrightarrow> shape (snd (f x t)) = shape t"
    by (rule framedD[OF assms])
  have h1: "\<And>ypath t. Suc (size ypath) \<le> Suc (size key + size v) \<Longrightarrow>
      shape (snd (createDependency f env ypath t)) = shape t"
    by (rule shape_createDependency[OF framed_mono[OF assms]])
  show ?thesis
    by (simp add: optimizeObjectProperty_def Let_def split_beta inLoop_shape base h1
        split: option.splits list.splits hook_call_type.splits)
qed

lemma shape_optimizeObjectProperties:
  "framed (Suc (size_list size properties)) f \<Longrightarrow>
   shape (snd (optimizeObjectProperties f env path properties condition s)) = shape s"
proof (induction properties arbitrary: condition s)
  case Nil
  show ?case by simp
next
  case (Cons el rest)
  have A: "framed (Suc (size_list size (el # rest))) f"
    using Cons.prems by simp
  have IH: "\<And>ccondition t. shape (snd (optimizeObjectProperties f env path rest ccondition t)) = shape t"
    by (rule Cons.IH[OF framed_mono[OF A]]) simp
  have base: "\<And>x t. size x < Suc (size_list size (el # rest)) \<Longrightarrow> shape (snd (f x t)) = shape t"
    by (rule framedD[OF A])
  have h1: "\<And>ykey yv ycomputed ycondition t. Suc (size ykey + size yv) \<le> Suc (size_list size (el # rest)) \<Longrightarrow>
      shape (snd (optimizeObjectProperty f env ykey yv ycomputed ycondition t)) = shape t"
    by (rule shape_optimizeObjectProperty[OF framed_mono[OF A]])
  have h2: "\<And>yargument ycondition t. Suc (size yargument) \<le> Suc (size_list size (el # rest)) \<Longrightarrow>
      shape (snd (optimizeSpreadElement f env yargument ycondition t)) = shape t"
    by (rule shape_optimizeSpreadElement[OF framed_mono[OF A]])
  show ?case
    by (cases el)
       (simp_all add:  Let_def split_beta inLoop_shape IH base h1 h2
        split: option.splits list.splits hook_call_type.splits)
qed

lemma shape_optimizeObjectExpression:
  assumes "framed (Suc (size_list size properties)) f"
  shows "shape (snd (optimizeObjectExpression f env isRecord properties s)) = shape s"
proof -
  have base: "\<And>x t. size x < Suc (size_list size properties) \<Longrightarrow> shape (snd (f x t)) = shape t"
    by (rule framedD[OF assms])
  have h1: "\<And>ypath yproperties ycondition t. Suc (size_list size yproperties) \<le> Suc (size_list size properties) \<Longrightarrow>
      shape (snd (optimizeObjectProperties f env ypath yproperties ycondition t)) = shape t"
    by (rule shape_optimizeObjectProperties[OF framed_mono[OF assms]])
  show ?thesis
    by (simp add: optimizeObjectExpression_def Let_def split_beta inLoop_shape base h1
        split: option.splits list.splits hook_call_type.splits)
qed

lemma shape_optimizeNewExpression:
  assumes "framed (Suc (size callee + size_list size arguments)) f"
  shows "shape (snd (optimizeNewExpression f env callee arguments s)) = shape s"
proof -
  have base: "\<And>x t. size x < Suc (size callee + size_list size arguments) \<Longrightarrow> shape (snd (f x t)) = shape t"
    by (rule framedD[OF assms])
  have h1: "\<And>ypath t. Suc (size ypath) \<le> Suc (size callee + size_list size arguments) \<Longrightarrow>
      shape (snd (createDependency f env ypath t)) = shape t"
    by (rule shape_createDependency[OF framed_mono[OF assms]])
  have h2: "\<And>yarguments ycondition t. Suc (size_list size yarguments) \<le> Suc (size callee + size_list size arguments) \<Longrightarrow>
      shape (snd (optimizeHookArguments f env yarguments ycondition t)) = shape t"
    by (rule shape_optimizeHookArguments[OF framed_mono[OF assms]])
  show ?thesis
    by (simp add: optimizeNewExpression_def Let_def split_beta inLoop_shape base h1 h2
        split: option.splits list.splits hook_call_type.splits)
qed

lemma shape_optimizeSequenceExpressions:
  "framed (Suc (size_list size expressions)) f \<Longrightarrow>
   shape (snd (optimizeSequenceExpressions f env expressions s)) = shape s"
proof (induction expressions arbitrary: s)
  case Nil
  show ?case by simp
next
  case (Cons el rest)
  have A: "framed (Suc (size_list size (el # rest))) f"
    using Cons.prems by simp
  have IH: "\<And> t. shape (snd (optimizeSequenceExpressions f env rest t)) = shape t"
    by (rule Cons.IH[OF framed_mono[OF A]]) simp
  have base: "\<And>x t. size x < Suc (size_list size (el # rest)) \<Longrightarrow> shape (snd (f x t)) = shape t"
    by (rule framedD[OF A])
  show ?case
    by (simp add:  Let_def split_beta inLoop_shape IH base
        split: option.splits list.splits hook_call_type.splits)
qed

lemma shape_optimizeSequenceExpression:
  assumes "framed (Suc (size_list size expressions)) f"
  shows "shape (snd (optimizeSequenceExpression f env expressions s)) = shape s"
proof -
  have base: "\<And>x t. size x < Suc (size_list size expressions) \<Longrightarrow> shape (snd (f x t)) = shape t"
    by (rule framedD[OF assms])
  have h1: "\<And>yexpressions t. Suc (size_list size yexpressions) \<le> Suc (size_list size expressions) \<Longrightarrow>
      shape (snd (optimizeSequenceExpressions f env yexpressions t)) = shape t"
    by (rule shape_optimizeSequenceExpressions[OF framed_mono[OF assms]])
  show ?thesis
    by (simp add: optimizeSequenceExpression_def Let_def split_beta inLoop_shape base h1
        split: option.splits list.splits hook_call_type.splits)
qed

lemma shape_memoizeTemplateExpressions:
  "framed (Suc (size_list size expressions)) f \<Longrightarrow>
   shape (snd (memoizeTemplateExpressions f env expressions conditions s)) = shape s"
proof (induction expressions arbitrary: conditions s)
  case Nil
  show ?case by simp
next
  case (Cons el rest)
  have A: "framed (Suc (size_list size (el # rest))) f"
    using Cons.prems by simp
  have IH: "\<And>cconditions t. shape (snd (memoizeTemplateExpressions f env rest cconditions t)) = shape t"
    by (rule Cons.IH[OF framed_mono[OF A]]) simp
  have base: "\<And>x t. size x < Suc (size_list size (el # rest)) \<Longrightarrow> shape (snd (f x t)) = shape t"
    by (rule framedD[OF A])
  have h1: "\<And>ypath t. Suc (size ypath) \<le> Suc (size_list size (el # rest)) \<Longrightarrow>
      shape (snd (createDependency f env ypath t)) = shape t"
    by (rule shape_createDependency[OF framed_mono[OF A]])
  show ?case
    by (simp add:  Let_def split_beta inLoop_shape IH base h1
        split: option.splits list.splits hook_call_type.splits)
qed

lemma shape_memoizeTemplateLiteral:
  assumes "framed (Suc (size_list size expressions)) f"
  shows "shape (snd (memoizeTemplateLiteral f env quasis expressions s)) = shape s"
proof -
  have base: "\<And>x t. size x < Suc (size_list size expressions) \<Longrightarrow> shape (snd (f x t)) = shape t"
    by (rule framedD[OF assms])
  have h1: "\<And>yexpressions yconditions t. Suc (size_list size yexpressions) \<le> Suc (size_list size expressions) \<Longrightarrow>
      shape (snd (memoizeTemplateExpressions f env yexpressions yconditions t)) = shape t"
    by (rule shape_memoizeTemplateExpressions[OF framed_mono[OF assms]])
  show ?thesis
    by (simp add: memoizeTemplateLiteral_def Let_def split_beta inLoop_shape base h1
        split: option.splits list.splits hook_call_type.splits)
qed

lemma shape_optimizeTemplateLiteral:
  assumes "framed (Suc (size_list size expressions)) f"
  shows "shape (snd (optimizeTemplateLiteral f env quasis expressions s)) = shape s"
proof -
  have base: "\<And>x t. size x < Suc (size_list size expressions) \<Longrightarrow> shape (snd (f x t)) = shape t"
    by (rule framedD[OF assms])
  have h1: "\<And>yquasis yexpressions t. Suc (size_list size yexpressions) \<le> Suc (size_list size expressions) \<Longrightarrow>
      shape (snd (memoizeTemplateLiteral f env yquasis yexpressions t)) = shape t"
    by (rule shape_memoizeTemplateLiteral[OF framed_mono[OF assms]])
  show ?thesis
    by (simp add: optimizeTemplateLiteral_def Let_def split_beta inLoop_shape base h1
        split: option.splits list.splits hook_call_type.splits)
qed

lemma shape_optimizedTaggedTemplateExpression:
  assumes "framed (Suc (size tag + size_list size expressions)) f"
  shows "shape (snd (optimizedTaggedTemplateExpression f env tag quasis expressions s)) = shape s"
proof -
  have base: "\<And>x t. size x < Suc (size tag + size_list size expressions) \<Longrightarrow> shape (snd (f x t)) = shape t"
    by (rule framedD[OF assms])
  have h1: "\<And>ypath t. Suc (size ypath) \<le> Suc (size tag + size_list size expressions) \<Longrightarrow>
      shape (snd (createDependency f env ypath t)) = shape t"
    by (rule shape_createDependency[OF framed_mono[OF assms]])
  have h2: "\<And>yquasis yexpressions t. Suc (size_list size yexpressions) \<le> Suc (size tag + size_list size expressions) \<Longrightarrow>
      shape (snd (memoizeTemplateLiteral f env yquasis yexpressions t)) = shape t"
    by (rule shape_memoizeTemplateLiteral[OF framed_mono[OF assms]])
  show ?thesis
    by (simp add: optimizedTaggedTemplateExpression_def Let_def split_beta inLoop_shape base h1 h2
        split: option.splits list.splits hook_call_type.splits)
qed

lemma shape_memoizeJSXExpressionContainer:
  assumes "framed (Suc (size e)) f"
  shows "shape (snd (memoizeJSXExpressionContainer f env e conditions s)) = shape s"
proof -
  have base: "\<And>x t. size x < Suc (size e) \<Longrightarrow> shape (snd (f x t)) = shape t"
    by (rule framedD[OF assms])
  have h1: "\<And>ypath t. Suc (size ypath) \<le> Suc (size e) \<Longrightarrow>
      shape (snd (createDependency f env ypath t)) = shape t"
    by (rule shape_createDependency[OF framed_mono[OF assms]])
  show ?thesis
    by (simp add: memoizeJSXExpressionContainer_def Let_def split_beta inLoop_shape base h1
        split: option.splits list.splits hook_call_type.splits)
qed

lemma shape_memoizeJSXSpreadChild:
  assumes "framed (Suc (size e)) f"
  shows "shape (snd (memoizeJSXSpreadChild f env e conditions s)) = shape s"
proof -
  have base: "\<And>x t. size x < Suc (size e) \<Longrightarrow> shape (snd (f x t)) = shape t"
    by (rule framedD[OF assms])
  have h1: "\<And>ypath t. Suc (size ypath) \<le> Suc (size e) \<Longrightarrow>
      shape (snd (createDependency f env ypath t)) = shape t"
    by (rule shape_createDependency[OF framed_mono[OF assms]])
  show ?thesis
    by (simp add: memoizeJSXSpreadChild_def Let_def split_beta inLoop_shape base h1
        split: option.splits list.splits hook_call_type.splits)
qed

lemma shape_memoizeJSXChildrenLoop:
  "framed (Suc (size_list size children)) f \<Longrightarrow>
   shape (snd (memoizeJSXChildrenLoop f env children conditions s)) = shape s"
proof (induction children arbitrary: conditions s)
  case Nil
  show ?case by simp
next
  case (Cons el rest)
  have A: "framed (Suc (size_list size (el # rest))) f"
    using Cons.prems by simp
  have IH: "\<And>cconditions t. shape (snd (memoizeJSXChildrenLoop f env rest cconditions t)) = shape t"
    by (rule Cons.IH[OF framed_mono[OF A]]) simp
  have base: "\<And>x t. size x < Suc (size_list size (el # rest)) \<Longrightarrow> shape (snd (f x t)) = shape t"
    by (rule framedD[OF A])
  have h1: "\<And>ypath t. Suc (size ypath) \<le> Suc (size_list size (el # rest)) \<Longrightarrow>
      shape (snd (createDependency f env ypath t)) = shape t"
    by (rule shape_createDependency[OF framed_mono[OF A]])
  have h2: "\<And>ye yconditions t. Suc (size ye) \<le> Suc (size_list size (el # rest)) \<Longrightarrow>
      shape (snd (memoizeJSXExpressionContainer f env ye yconditions t)) = shape t"
    by (rule shape_memoizeJSXExpressionContainer[OF framed_mono[OF A]])
  have h3: "\<And>ye yconditions t. Suc (size ye) \<le> Suc (size_list size (el # rest)) \<Longrightarrow>
      shape (snd (memoizeJSXSpreadChild f env ye yconditions t)) = shape t"
    by (rule shape_memoizeJSXSpreadChild[OF framed_mono[OF A]])
  show ?case
    by (cases el)
       (simp_all add:  Let_def split_beta inLoop_shape IH base h1 h2 h3
        split: option.splits list.splits hook_call_type.splits)
qed

lemma shape_memoizeJSXChildren:
  assumes "framed (Suc (size_list size children)) f"
  shows "shape (snd (memoizeJSXChildren f env children s)) = shape s"
proof -
  have base: "\<And>x t. size x < Suc (size_list size children) \<Longrightarrow> shape (snd (f x t)) = shape t"
    by (rule framedD[OF assms])
  have h1: "\<And>ychildren yconditions t. Suc (size_list size ychildren) \<le> Suc (size_list size children) \<Longrightarrow>
      shape (snd (memoizeJSXChildrenLoop f env ychildren yconditions t)) = shape t"
    by (rule shape_memoizeJSXChildrenLoop[OF framed_mono[OF assms]])
  show ?thesis
    by (simp add: memoizeJSXChildren_def Let_def split_beta inLoop_shape base h1
        split: option.splits list.splits hook_call_type.splits)
qed

lemma shape_optimizeJSXFragment:
  assumes "framed (Suc (size_list size children)) f"
  shows "shape (snd (optimizeJSXFragment f env children s)) = shape s"
proof -
  have base: "\<And>x t. size x < Suc (size_list size children) \<Longrightarrow> shape (snd (f x t)) = shape t"
    by (rule framedD[OF assms])
  have h1: "\<And>ychildren t. Suc (size_list size ychildren) \<le> Suc (size_list size children) \<Longrightarrow>
      shape (snd (memoizeJSXChildren f env ychildren t)) = shape t"
    by (rule shape_memoizeJSXChildren[OF framed_mono[OF assms]])
  show ?thesis
    by (simp add: optimizeJSXFragment_def Let_def split_beta inLoop_shape base h1
        split: option.splits list.splits hook_call_type.splits)
qed

lemma shape_optimizeJSXAttribute:
  assumes "framed (Suc (size_option size v)) f"
  shows "shape (snd (optimizeJSXAttribute f env name v dependencies s)) = shape s"
proof -
  have base: "\<And>x t. size x < Suc (size_option size v) \<Longrightarrow> shape (snd (f x t)) = shape t"
    by (rule framedD[OF assms])
  have h1: "\<And>ypath t. Suc (size ypath) \<le> Suc (size_option size v) \<Longrightarrow>
      shape (snd (createDependency f env ypath t)) = shape t"
    by (rule shape_createDependency[OF framed_mono[OF assms]])
  have h2: "\<And>ye yconditions t. Suc (size ye) \<le> Suc (size_option size v) \<Longrightarrow>
      shape (snd (memoizeJSXExpressionContainer f env ye yconditions t)) = shape t"
    by (rule shape_memoizeJSXExpressionContainer[OF framed_mono[OF assms]])
  show ?thesis
  proof (cases v)
    case None
    then show ?thesis
      by (simp add: optimizeJSXAttribute_def Let_def split_beta inLoop_shape base h1 h2)
  next
    case (Some e)
    then show ?thesis
      by (cases e)
         (simp_all add: optimizeJSXAttribute_def Let_def split_beta inLoop_shape base h1 h2
          split: option.splits list.splits hook_call_type.splits)
  qed
qed

lemma shape_optimizeJSXAttributesLoop:
  "framed (Suc (size_list size attributes)) f \<Longrightarrow>
   shape (snd (optimizeJSXAttributesLoop f env attributes dependencies s)) = shape s"
proof (induction attributes arbitrary: dependencies s)
  case Nil
  show ?case by simp
next
  case (Cons el rest)
  have A: "framed (Suc (size_list size (el # rest))) f"
    using Cons.prems by simp
  have IH: "\<And>cdependencies t. shape (snd (optimizeJSXAttributesLoop f env rest cdependencies t)) = shape t"
    by (rule Cons.IH[OF framed_mono[OF A]]) simp
  have base: "\<And>x t. size x < Suc (size_list size (el # rest)) \<Longrightarrow> shape (snd (f x t)) = shape t"
    by (rule framedD[OF A])
  have h1: "\<And>yname yv ydependencies t. Suc (size_option size yv) \<le> Suc (size_list size (el # rest)) \<Longrightarrow>
      shape (snd (optimizeJSXAttribute f env yname yv ydependencies t)) = shape t"
    by (rule shape_optimizeJSXAttribute[OF framed_mono[OF A]])
  have h2: "\<And>ypath t. Suc (size ypath) \<le> Suc (size_list size (el # rest)) \<Longrightarrow>
      shape (snd (createDependency f env ypath t)) = shape t"
    by (rule shape_createDependency[OF framed_mono[OF A]])
  show ?case
    by (cases el)
       (simp_all add:  Let_def split_beta inLoop_shape IH base h1 h2
        split: option.splits list.splits hook_call_type.splits)
qed

lemma shape_optimizeJSXAttributes:
  assumes "framed (Suc (size_list size attributes)) f"
  shows "shape (snd (optimizeJSXAttributes f env attributes s)) = shape s"
proof -
  have base: "\<And>x t. size x < Suc (size_list size attributes) \<Longrightarrow> shape (snd (f x t)) = shape t"
    by (rule framedD[OF assms])
  have h1: "\<And>yattributes ydependencies t. Suc (size_list size yattributes) \<le> Suc (size_list size attributes) \<Longrightarrow>
      shape (snd (optimizeJSXAttributesLoop f env yattributes ydependencies t)) = shape t"
    by (rule shape_optimizeJSXAttributesLoop[OF framed_mono[OF assms]])
  show ?thesis
    by (simp add: optimizeJSXAttributes_def Let_def split_beta inLoop_shape base h1
        split: option.splits list.splits hook_call_type.splits)
qed

lemma shape_optimizeJSXElement:
  assumes "framed (Suc (size_list size attributes + size_list size children)) f"
  shows "shape (snd (optimizeJSXElement f env name attributes children s)) = shape s"
proof -
  have base: "\<And>x t. size x < Suc (size_list size attributes + size_list size children) \<Longrightarrow> shape (snd (f x t)) = shape t"
    by (rule framedD[OF assms])
  have h1: "\<And>yattributes t. Suc (size_list size yattributes) \<le> Suc (size_list size attributes + size_list size children) \<Longrightarrow>
      shape (snd (optimizeJSXAttributes f env yattributes t)) = shape t"
    by (rule shape_optimizeJSXAttributes[OF framed_mono[OF assms]])
  have h2: "\<And>ychildren t. Suc (size_list size ychildren) \<le> Suc (size_list size attributes + size_list size children) \<Longrightarrow>
      shape (snd (memoizeJSXChildren f env ychildren t)) = shape t"
    by (rule shape_memoizeJSXChildren[OF framed_mono[OF assms]])
  show ?thesis
    by (simp add: optimizeJSXElement_def Let_def split_beta inLoop_shape base h1 h2
        split: option.splits list.splits hook_call_type.splits)
qed

text \<open>The expression walk preserves the shape of the state.\<close>

lemma shape_optimizeExpression: "shape (snd (optimizeExpression env path s)) = shape s"
proof (induction "size path" arbitrary: path s rule: less_induct)
  case less
  have IH: "\<And>x t. size x < size path \<Longrightarrow> shape (snd (optimizeExpression env x t)) = shape t"
    using less by blast
  have F: "framed (size path) (optimizeExpression env)"
    unfolding framed_def using IH by blast
  note H = shape_optimizeMemberExpression
    shape_optimizeConditionalExpression
    shape_optimizeBinaryExpression
    shape_optimizeLogicalExpression
    shape_optimizeUnaryExpression
    shape_optimizeCallExpression
    shape_optimizeAssignmentExpression
    shape_optimizeArrayExpression
    shape_optimizeObjectExpression
    shape_optimizeNewExpression
    shape_optimizeSequenceExpression
    shape_optimizedTaggedTemplateExpression
    shape_optimizeTemplateLiteral
    shape_optimizeJSXFragment
    shape_optimizeJSXElement
  show ?case
    by (subst optimizeExpression.simps, cases path)
       (simp_all add: Let_def split_beta inLoop_shape IH size_nestedExpression H[OF framed_mono[OF F]])
qed

lemma getLoopMemoDeclaration_parents:
  "\<exists>p'. fst (snd (snd (getLoopMemoDeclaration this (p # rest) u))) = p' # rest \<and>
        isInLoop p' = isInLoop p"
  by (simp add: getLoopMemoDeclaration_def Let_def split_beta)

lemma shape_childLoopMemoDeclaration [simp]:
  "shape (snd (childLoopMemoDeclaration child s)) = shape s"
proof -
  obtain p' where
    "fst (snd (snd (getLoopMemoDeclaration child (scope s # parents s) (uid s)))) = p' # parents s"
    and "isInLoop p' = isInLoop (scope s)"
    using getLoopMemoDeclaration_parents by blast
  then show ?thesis
    by (simp add: childLoopMemoDeclaration_def Let_def split_beta shape_def)
qed

lemma shape_optimizeExpressionStatement [simp]:
  "shape (snd (optimizeExpressionStatement env e s)) = shape s"
  by (simp add: optimizeExpressionStatement_def split_beta shape_optimizeExpression)

lemma shape_optimizeVariableDeclarators [simp]:
  "shape (optimizeVariableDeclarators env kind declarations s) = shape s"
proof (induction declarations arbitrary: s)
  case Nil
  show ?case by simp
next
  case (Cons d rest)
  obtain i init where d: "d = (i, init)"
    by (cases d)
  show ?case
    by (cases init) (simp_all add: d Cons.IH split_beta shape_optimizeExpression)
qed

lemma shape_optimizeVariableDeclaration [simp]:
  "shape (optimizeVariableDeclaration env kind declarations s) = shape s"
  by (simp add: optimizeVariableDeclaration_def)

lemma shape_optimizeReturnStatement [simp]:
  "shape (snd (optimizeReturnStatement env argument s)) = shape s"
  by (cases argument)
     (simp_all add: optimizeReturnStatement_def split_beta shape_optimizeExpression)

lemma shape_optimizeThrowStatement [simp]:
  "shape (snd (optimizeThrowStatement env argument s)) = shape s"
  by (simp add: optimizeThrowStatement_def split_beta shape_optimizeExpression)

text \<open>A statement walk that preserves the shape on all statements below a size.\<close>

definition framedS :: "nat \<Rightarrow> statement_walk \<Rightarrow> bool" where
  "framedS n f \<longleftrightarrow> (\<forall>x b t. size x < n \<longrightarrow> shape (f x b t) = shape t)"

lemma framedS_mono: "framedS n f \<Longrightarrow> m \<le> n \<Longrightarrow> framedS m f"
  by (simp add: framedS_def)

lemma framedSD: "framedS n f \<Longrightarrow> size x < n \<Longrightarrow> shape (f x b t) = shape t"
  by (simp add: framedS_def)

lemma shape_optimizeBlockBody:
  "framedS (Suc (size_list size sts)) f \<Longrightarrow> shape (optimizeBlockBody f sts s) = shape s"
proof (induction sts arbitrary: s)
  case Nil
  show ?case by simp
next
  case (Cons st rest)
  have A: "framedS (Suc (size_list size (st # rest))) f"
    using Cons.prems by simp
  have IH: "\<And>t. shape (optimizeBlockBody f rest t) = shape t"
    by (rule Cons.IH[OF framedS_mono[OF A]]) simp
  have "\<And>b t. shape (f st b t) = shape t"
    by (rule framedSD[OF A]) simp
  then show ?case
    by (simp add: IH)
qed

lemma shape_optimizeBlock:
  assumes "framedS (size path) f"
  shows "shape (optimizeBlock f env path s) = shape s"
proof -
  have h: "\<And>ys t. Suc (size_list size ys) \<le> size path \<Longrightarrow>
      shape (optimizeBlockBody f ys t) = shape t"
    by (rule shape_optimizeBlockBody[OF framedS_mono[OF assms]])
  show ?thesis
    by (cases path) (simp_all add: optimizeBlock_def h)
qed

lemma shape_optimizeBlockStatement:
  assumes "framedS (size path) f"
  shows "shape (optimizeBlockStatement f env path topBlock s) = shape s"
  by (simp add: optimizeBlockStatement_def Let_def split_beta inLoop_shape
        shape_optimizeBlock[OF assms])

lemma shape_optimizeIfStatement:
  assumes "framedS (Suc (size consequent + size_option size alternate)) f"
  shows "shape (optimizeIfStatement f env test consequent alternate s) = shape s"
proof -
  have base: "\<And>x b t. size x < Suc (size consequent + size_option size alternate) \<Longrightarrow>
      shape (f x b t) = shape t"
    by (rule framedSD[OF assms])
  show ?thesis
    by (cases alternate)
       (simp_all add: optimizeIfStatement_def Let_def split_beta inLoop_shape base
          shape_optimizeExpression)
qed

lemma shape_optimizeLoopStatement:
  assumes "framedS (Suc (size body)) f"
  shows "shape (snd (optimizeLoopStatement f env body s)) = shape s"
proof -
  have base: "\<And>b t. shape (f body b t) = shape t"
    by (rule framedSD[OF assms]) simp
  show ?thesis
    by (simp add: optimizeLoopStatement_def Let_def split_beta inLoop_shape base
        split: option.splits)
qed

lemma shape_optimizeForXStatement:
  assumes "framedS (Suc (size body)) f"
  shows "shape (snd (optimizeForXStatement f env right body s)) = shape s"
  by (simp add: optimizeForXStatement_def Let_def split_beta
        shape_optimizeLoopStatement[OF assms] shape_optimizeExpression)

lemma shape_optimizeSwitchCases:
  "framedS (Suc (size_list (size_prod (\<lambda>x. 0) (size_list size)) cases)) f \<Longrightarrow>
   shape (snd (optimizeSwitchCases f env cases s)) = shape s"
proof (induction cases arbitrary: s)
  case Nil
  show ?case by simp
next
  case (Cons current rest)
  obtain test consequent where current: "current = (test, consequent)"
    by (cases current)
  have A: "framedS (Suc (size_list (size_prod (\<lambda>x. 0) (size_list size)) (current # rest))) f"
    using Cons.prems by simp
  have IH: "\<And>t. shape (snd (optimizeSwitchCases f env rest t)) = shape t"
    by (rule Cons.IH[OF framedS_mono[OF A]]) simp
  have "\<And>t. shape (optimizeBlockBody f consequent t) = shape t"
    by (rule shape_optimizeBlockBody[OF framedS_mono[OF A]]) (simp add: current)
  then show ?case
    by (simp add: current IH Let_def split_beta inLoop_shape)
qed

lemma shape_optimizeSwitchStatement:
  assumes "framedS (Suc (size_list (size_prod (\<lambda>x. 0) (size_list size)) cases)) f"
  shows "shape (snd (optimizeSwitchStatement f env discriminant cases s)) = shape s"
  by (simp add: optimizeSwitchStatement_def Let_def split_beta
        shape_optimizeSwitchCases[OF assms] shape_optimizeExpression)

lemma shape_optimizeTryStatement:
  assumes "framedS (Suc (size block + size_option (size_prod (\<lambda>x. 0) size) handler
                          + size_option size finalizer)) f"
  shows "shape (snd (optimizeTryStatement f env block handler finalizer s)) = shape s"
proof -
  have h: "\<And>p t. size p \<le> Suc (size block + size_option (size_prod (\<lambda>x. 0) size) handler
                          + size_option size finalizer) \<Longrightarrow>
      shape (optimizeBlock f env p t) = shape t"
    by (rule shape_optimizeBlock[OF framedS_mono[OF assms]])
  show ?thesis
    by (cases handler; cases finalizer)
       (auto simp: optimizeTryStatement_def Let_def split_beta inLoop_shape h)
qed

lemma shape_optimizeLabeledStatement:
  assumes "framedS (Suc (size body)) f"
  shows "shape (snd (optimizeLabeledStatement f env body s)) = shape s"
proof -
  have base: "\<And>b t. shape (f body b t) = shape t"
    by (rule framedSD[OF assms]) simp
  show ?thesis
    by (simp add: optimizeLabeledStatement_def Let_def split_beta inLoop_shape base)
qed

text \<open>The statement walk preserves the shape of the state.\<close>

lemma shape_optimizeStatement: "shape (optimizeStatement env path topBlock s) = shape s"
proof (induction "size path" arbitrary: path topBlock s rule: less_induct)
  case less
  have IH: "\<And>x b t. size x < size path \<Longrightarrow> shape (optimizeStatement env x b t) = shape t"
    using less by blast
  have F: "framedS (size path) (optimizeStatement env)"
    unfolding framedS_def using IH by blast
  note H = shape_optimizeBlockStatement shape_optimizeIfStatement shape_optimizeLoopStatement
    shape_optimizeForXStatement shape_optimizeSwitchStatement shape_optimizeTryStatement
    shape_optimizeLabeledStatement
  show ?case
    by (subst optimizeStatement.simps, cases path)
       (simp_all add: Let_def split_beta H[OF framedS_mono[OF F]])
qed

section \<open>Expressions classified as constant\<close>

text \<open>
  \<open>isConstant\<close> only records its answer: the scopes and the uid counter are as before.
\<close>

lemma isConstant_state:
  "scope (snd (isConstant env path s)) = scope s"
  "parents (snd (isConstant env path s)) = parents s"
  "uid (snd (isConstant env path s)) = uid s"
  by (simp_all add: isConstant_def Let_def split: option.splits)

lemma pushed_isConstant: "pushed (snd (isConstant env path s)) s' = pushed s s'"
  by (simp add: pushed_def isConstant_state)

lemma memoHeader_isConstant:
  "memoHeader type (snd (isConstant env path s)) = memoHeader type s"
  "memoHeaderUid type (snd (isConstant env path s)) = memoHeaderUid type s"
  by (simp_all add: memoHeader_def memoHeaderUid_def isConstant_state)

text \<open>
  Claim C4, as amended. An expression with the skip marker and a literal other than a
  template literal are returned as they are and the state is unchanged: nothing is
  allocated. A nesting wrapper is optimized as the expression it wraps. Every other
  expression that \<open>isConstant\<close> classifies as constant is handed to \<open>createMemo\<close>
  with \<open>dependencies === true\<close>: unless it is an identifier that the current scope has
  already optimized, exactly one memo slot of the current scope is consumed, for the
  one-time declaration \<open>let v = (i in header) ? header[i] : (header[i] = expr)\<close>; no ref
  slot is consumed and the ancestors of the scope are left as they were.
\<close>

theorem constant_expression_slot:
  "let r = optimizeExpression env path s;
       c = fst (isConstant env path s);
       s0 = snd (isConstant env path s);
       header = memoHeader TMemo s;
       index = NumericLiteral (of_nat (indecesMemo (scope s)));
       pos = MemberExpression (Identifier header) index True;
       v = Uid (memoHeaderUid TMemo s) ''value''
   in (shouldSkipNode env path \<or> \<not> isNestedExpression path \<and> isLiteral path \<and> \<not> isTemplateLiteral path \<longrightarrow>
         r = (optimizedExpr path NoDeps True, s)) \<and>
      (\<not> shouldSkipNode env path \<and> isNestedExpression path \<longrightarrow>
         r = optimizeExpression env (nestedExpression path) s) \<and>
      (\<not> shouldSkipNode env path \<and> \<not> isNestedExpression path \<and>
       \<not> (isLiteral path \<and> \<not> isTemplateLiteral path) \<and> c \<longrightarrow>
         r = createMemo path (Flag True) TMemo s0 \<and>
         ((\<forall>i. path = Identifier i \<longrightarrow> getOptimized i (scope s) = None) \<longrightarrow>
            indecesMemo (scope (snd r)) = Suc (indecesMemo (scope s)) \<and>
            indecesRef (scope (snd r)) = indecesRef (scope s) \<and>
            parents (snd r) = parents s \<and>
            pushed s (snd r) =
              [VariableDeclaration ''let''
                 [(Identifier v,
                   Some (ConditionalExpression
                           (BinaryExpression ''in'' index (Identifier header)) pos
                           (AssignmentExpression ''='' pos path)))]] \<and>
            expr (fst r) = Identifier v))"
proof -
  have A: "optimizeExpression env path s = (optimizedExpr path NoDeps True, s)"
    if "shouldSkipNode env path \<or> \<not> isNestedExpression path \<and> isLiteral path \<and> \<not> isTemplateLiteral path"
    using that by (subst optimizeExpression.simps) auto
  have B: "optimizeExpression env path s = optimizeExpression env (nestedExpression path) s"
    if "\<not> shouldSkipNode env path \<and> isNestedExpression path"
    using that by (subst optimizeExpression.simps) simp
  have C: "optimizeExpression env path s =
             createMemo path (Flag True) TMemo (snd (isConstant env path s))"
    if "\<not> shouldSkipNode env path \<and> \<not> isNestedExpression path \<and>
        \<not> (isLiteral path \<and> \<not> isTemplateLiteral path) \<and> fst (isConstant env path s)"
    using that by (subst optimizeExpression.simps) (auto simp: split_beta)
  have D: "indecesMemo (scope (snd (createMemo path (Flag True) TMemo (snd (isConstant env path s))))) =
             Suc (indecesMemo (scope s)) \<and>
           indecesRef (scope (snd (createMemo path (Flag True) TMemo (snd (isConstant env path s))))) =
             indecesRef (scope s) \<and>
           parents (snd (createMemo path (Flag True) TMemo (snd (isConstant env path s)))) = parents s \<and>
           pushed s (snd (createMemo path (Flag True) TMemo (snd (isConstant env path s)))) =
              [VariableDeclaration ''let''
                 [(Identifier (Uid (memoHeaderUid TMemo s) ''value''),
                   Some (ConditionalExpression
                           (BinaryExpression ''in'' (NumericLiteral (of_nat (indecesMemo (scope s))))
                              (Identifier (memoHeader TMemo s)))
                           (MemberExpression (Identifier (memoHeader TMemo s))
                              (NumericLiteral (of_nat (indecesMemo (scope s)))) True)
                           (AssignmentExpression ''=''
                              (MemberExpression (Identifier (memoHeader TMemo s))
                                 (NumericLiteral (of_nat (indecesMemo (scope s)))) True)
                              path)))]] \<and>
           expr (fst (createMemo path (Flag True) TMemo (snd (isConstant env path s)))) =
             Identifier (Uid (memoHeaderUid TMemo s) ''value'')"
    if fresh: "\<forall>i. path = Identifier i \<longrightarrow> getOptimized i (scope s) = None"
  proof -
    let ?s0 = "snd (isConstant env path s)"
    have fresh0: "\<forall>i. path = Identifier i \<longrightarrow> getOptimized i (scope ?s0) = None"
      using fresh by (simp add: isConstant_state)
    have m: "slotCount TMemo (scope (snd (createMemo path (Flag True) TMemo ?s0))) =
               Suc (slotCount TMemo (scope ?s0))"
      and r: "slotCount TRef (scope (snd (createMemo path (Flag True) TMemo ?s0))) =
               slotCount TRef (scope ?s0)"
      by (simp_all add: createMemo_slotCount[OF fresh0])
    have p: "pushed ?s0 (snd (createMemo path (Flag True) TMemo ?s0)) =
              [VariableDeclaration ''let''
                 [(Identifier (Uid (memoHeaderUid TMemo s) ''value''),
                   Some (ConditionalExpression
                           (BinaryExpression ''in'' (NumericLiteral (of_nat (indecesMemo (scope s))))
                              (Identifier (memoHeader TMemo s)))
                           (MemberExpression (Identifier (memoHeader TMemo s))
                              (NumericLiteral (of_nat (indecesMemo (scope s)))) True)
                           (AssignmentExpression ''=''
                              (MemberExpression (Identifier (memoHeader TMemo s))
                                 (NumericLiteral (of_nat (indecesMemo (scope s)))) True)
                              path)))]]"
      using createMemo_fresh[OF fresh0, of "Flag True" TMemo]
      by (simp add: Let_def createMemoCondition_def memoHeader_isConstant slotCount_def
            isConstant_state)
    have e: "expr (fst (createMemo path (Flag True) TMemo ?s0)) =
             Identifier (Uid (memoHeaderUid TMemo s) ''value'')"
      by (simp add: createMemo_expr[OF fresh0] memoHeader_isConstant)
    show ?thesis
      using m r p e by (simp add: slotCount_def isConstant_state pushed_isConstant)
  qed
  show ?thesis
    unfolding Let_def using A B C D by metis
qed

theorem constant_expression_slot_witness:
  "optimizeExpression (componentEnv [] []) (NumericLiteral 1) Optimizer =
     (optimizedExpr (NumericLiteral 1) NoDeps True, Optimizer) \<and>
   optimizeExpression (componentEnv [] [])
     (NestedExpression ParenthesizedExpression (Identifier (Src 1 ''LIMIT''))) Optimizer =
     optimizeExpression (componentEnv [] []) (Identifier (Src 1 ''LIMIT'')) Optimizer \<and>
   indecesMemo (scope (snd (optimizeExpression (componentEnv [] [])
     (Identifier (Src 1 ''LIMIT'')) Optimizer))) = 1 \<and>
   pushed Optimizer (snd (optimizeExpression (componentEnv [] [])
     (Identifier (Src 1 ''LIMIT'')) Optimizer)) =
     [VariableDeclaration ''let''
        [(Identifier (Uid 1 ''value''),
          Some (ConditionalExpression
                  (BinaryExpression ''in'' (NumericLiteral 0) (Identifier (Uid 0 ''cache'')))
                  (MemberExpression (Identifier (Uid 0 ''cache'')) (NumericLiteral 0) True)
                  (AssignmentExpression ''=''
                     (MemberExpression (Identifier (Uid 0 ''cache'')) (NumericLiteral 0) True)
                     (Identifier (Src 1 ''LIMIT'')))))]]"
proof -
  define env where "env = componentEnv [] []"
  have sk: "shouldSkipNode env p = False" for p
    by (simp add: env_def componentEnv_def)
  have c: "fst (isConstant env (Identifier (Src 1 ''LIMIT'')) Optimizer)"
    unfolding env_def by code_simp
  have s: "memoHeader TMemo Optimizer = Uid 0 ''cache''" "memoHeaderUid TMemo Optimizer = 1"
    "indecesMemo (scope Optimizer) = 0" "getOptimized i (scope Optimizer) = None" for i
    by (simp_all add: memoHeader_def memoHeaderUid_def Optimizer_def OptimizerScope_def
          createHeader_def generateUidIdentifier_def getOptimized_def)
  have 1: "optimizeExpression env (NumericLiteral 1) Optimizer =
     (optimizedExpr (NumericLiteral 1) NoDeps True, Optimizer)"
    using constant_expression_slot
            [where env = env and path = "NumericLiteral 1" and s = Optimizer]
    by (simp add: Let_def)
  have 2: "optimizeExpression env
     (NestedExpression ParenthesizedExpression (Identifier (Src 1 ''LIMIT''))) Optimizer =
     optimizeExpression env (Identifier (Src 1 ''LIMIT'')) Optimizer"
    using constant_expression_slot
            [where env = env and s = Optimizer
               and path = "NestedExpression ParenthesizedExpression (Identifier (Src 1 ''LIMIT''))"]
    by (simp add: Let_def sk)
  have 3: "indecesMemo (scope (snd (optimizeExpression env (Identifier (Src 1 ''LIMIT'')) Optimizer))) = 1 \<and>
   pushed Optimizer (snd (optimizeExpression env (Identifier (Src 1 ''LIMIT'')) Optimizer)) =
     [VariableDeclaration ''let''
        [(Identifier (Uid 1 ''value''),
          Some (ConditionalExpression
                  (BinaryExpression ''in'' (NumericLiteral 0) (Identifier (Uid 0 ''cache'')))
                  (MemberExpression (Identifier (Uid 0 ''cache'')) (NumericLiteral 0) True)
                  (AssignmentExpression ''=''
                     (MemberExpression (Identifier (Uid 0 ''cache'')) (NumericLiteral 0) True)
                     (Identifier (Src 1 ''LIMIT'')))))]]"
    using constant_expression_slot
            [where env = env and path = "Identifier (Src 1 ''LIMIT'')" and s = Optimizer] c
    by (auto simp: Let_def sk s)
  show ?thesis
    using 1 2 3 unfolding env_def by blast
qed

text \<open>
  The claim as written allows no slot at all. A read of a binding from outside the
  component is classified as constant and consumes slot \<open>0\<close> of the root scope.
\<close>

theorem constant_expression_slot_counterexample:
  "fst (isConstant (componentEnv [] []) (Identifier (Src 1 ''LIMIT'')) Optimizer) \<and>
   indecesMemo (scope Optimizer) = 0 \<and>
   indecesMemo (scope (snd (optimizeExpression (componentEnv [] [])
     (Identifier (Src 1 ''LIMIT'')) Optimizer))) = 1"
  by code_simp

section \<open>Assignment to an identifier\<close>

text \<open>
  \<open>optimizeLVal\<close> with \<open>dirty\<close> set hands the binding of the identifier to
  \<open>deleteOptimized\<close>: whatever the depth of the first scope that holds an entry for the
  binding, that entry is removed and nothing else changes.
\<close>

lemma optimizeLVal_identifier:
  "getBindingIdentifier env (Identifier i) (identName i) = Some b \<Longrightarrow>
   snd (optimizeLVal f env (Identifier i) True s) =
     s\<lparr>scope := fst (deleteOptimized b (scope s) (parents s)),
       parents := snd (deleteOptimized b (scope s) (parents s))\<rparr>"
  by (simp add: optimizeLVal_def Let_def split_beta)

lemma optimizeLVal_deletes_first:
  assumes "getBindingIdentifier env (Identifier i) (identName i) = Some b"
    and "n < length (scope s # parents s)"
    and "\<forall>m<n. getOptimized b ((scope s # parents s) ! m) = None"
    and "getOptimized b ((scope s # parents s) ! n) \<noteq> None"
  shows "scope (snd (optimizeLVal f env (Identifier i) True s)) #
         parents (snd (optimizeLVal f env (Identifier i) True s)) =
           (scope s # parents s)[n := withoutOptimized b ((scope s # parents s) ! n)]"
proof -
  have "deleteOptimized_parents b (scope s # parents s) =
          (scope s # parents s)[n := withoutOptimized b ((scope s # parents s) ! n)]"
    using assms(2-4) by (intro deleteOptimized_parents_first) (simp_all add: getOptimized_def)
  moreover have "deleteOptimized_parents b (scope s # parents s) \<noteq> []"
    by simp
  ultimately show ?thesis
    by (simp add: optimizeLVal_identifier[OF assms(1)] deleteOptimized_chain
          del: deleteOptimized_parents.simps)
qed

text \<open>
  Claim C7 says that after the removal a subsequent read of the binding is memoized
  afresh. That holds for a read while the scope of the assignment is still current: a new
  slot is allocated. It fails once that scope is left when an enclosing scope holds an entry
  of its own for the binding (the binding was read there before, and read again in the
  inner scope, which \<open>createMemo\<close> records per scope): \<open>deleteOptimized\<close> returns
  after the first scope that holds the key, the entry of the enclosing scope survives the
  assignment, and a read there gets the result recorded before the assignment, with no new
  slot and no new declaration.
\<close>

theorem assignment_keeps_outer_entry:
  assumes "getBindingIdentifier env (Identifier i) (identName i) = Some b"
    and "getOptimized b (scope s) \<noteq> None"
    and "parents s = p # ps"
    and "getOptimized b p = Some stale"
  shows "let s1 = snd (optimizeLVal f env (Identifier i) True s);
             s2 = snd (leaveScope s1)
         in scope s1 = withoutOptimized b (scope s) \<and>
            parents s1 = p # ps \<and>
            slotCount type (scope (snd (createMemo (Identifier b) dependencies type s1))) =
              Suc (slotCount type (scope s)) \<and>
            scope s2 = p \<and>
            createMemo (Identifier b) dependencies type s2 = (stale, s2)"
proof -
  have d: "deleteOptimized b (scope s) (parents s) = (withoutOptimized b (scope s), p # ps)"
    using assms(2,3) by (simp add: deleteOptimized_def getOptimized_def withoutOptimized_def)
  have s1: "snd (optimizeLVal f env (Identifier i) True s) =
              s\<lparr>scope := withoutOptimized b (scope s), parents := p # ps\<rparr>"
    by (simp add: optimizeLVal_identifier[OF assms(1)] d)
  have fresh: "\<forall>j. Identifier b = Identifier j \<longrightarrow>
      getOptimized j (scope (s\<lparr>scope := withoutOptimized b (scope s), parents := p # ps\<rparr>)) = None"
    by (simp add: getOptimized_def withoutOptimized_def)
  have sl: "slotCount type (withoutOptimized b (scope s)) = slotCount type (scope s)"
    by (simp add: slotCount_def withoutOptimized_def)
  show ?thesis
    using assms(4) createMemo_slotCount[OF fresh, of type dependencies type]
    by (simp add: Let_def s1 leaveScope_def createMemo_def sl)
qed

theorem assignment_keeps_outer_entry_witness:
  "let env = componentEnv [(''x'', Src 1 ''x'')] [];
       r0 = optimizedExpr (Identifier (Uid 1 ''value'')) (Dep (Identifier (Uid 2 ''equals''))) False;
       r1 = optimizedExpr (Identifier (Uid 4 ''value'')) (Dep (Identifier (Uid 5 ''equals''))) False;
       s = Optimizer\<lparr>scope := setOptimized (Src 1 ''x'') r1 (OptimizerScope False),
                      parents := [setOptimized (Src 1 ''x'') r0 (OptimizerScope False)]\<rparr>;
       s1 = snd (optimizeLVal (optimizeExpression env) env (Identifier (Src 4 ''x'')) True s);
       s2 = snd (leaveScope s1)
   in getOptimized (Src 1 ''x'') (scope s1) = None \<and>
      indecesMemo (scope (snd (createMemo (Identifier (Src 1 ''x'')) (Flag False) TMemo s1))) = 1 \<and>
      scope s2 = setOptimized (Src 1 ''x'') r0 (OptimizerScope False) \<and>
      createMemo (Identifier (Src 1 ''x'')) (Flag False) TMemo s2 = (r0, s2)"
  using assignment_keeps_outer_entry
          [where env = "componentEnv [(''x'', Src 1 ''x'')] []" and i = "Src 4 ''x''"
             and b = "Src 1 ''x''" and f = "optimizeExpression (componentEnv [(''x'', Src 1 ''x'')] [])"
             and s = "Optimizer\<lparr>scope := setOptimized (Src 1 ''x'')
                        (optimizedExpr (Identifier (Uid 4 ''value'')) (Dep (Identifier (Uid 5 ''equals''))) False)
                        (OptimizerScope False),
                      parents := [setOptimized (Src 1 ''x'')
                        (optimizedExpr (Identifier (Uid 1 ''value'')) (Dep (Identifier (Uid 2 ''equals''))) False)
                        (OptimizerScope False)]\<rparr>"
             and p = "setOptimized (Src 1 ''x'')
                        (optimizedExpr (Identifier (Uid 1 ''value'')) (Dep (Identifier (Uid 2 ''equals''))) False)
                        (OptimizerScope False)"
             and ps = "[]"
             and stale = "optimizedExpr (Identifier (Uid 1 ''value'')) (Dep (Identifier (Uid 2 ''equals''))) False"
             and dependencies = "Flag False" and type = TMemo]
  by (simp add: Let_def componentEnv_def getOptimized_def setOptimized_def OptimizerScope_def
        Optimizer_def withoutOptimized_def slotCount_def)

text \<open>
  The whole pass on \<open>function C(x) { x; { x; x = 1; } return x; }\<close>: the value
  returned is the one memoized before the assignment.
\<close>

lemma assignment_in_block_component:
  "fst (optimize (componentEnv [(''x'', Src 1 ''x'')] [])
     (FunctionComponent (BlockStatement
        [ExpressionStatement (Identifier (Src 2 ''x'')),
         BlockStatement
           [ExpressionStatement (Identifier (Src 3 ''x'')),
            ExpressionStatement
              (AssignmentExpression ''='' (Identifier (Src 4 ''x'')) (NumericLiteral 1))],
         ReturnStatement (Some (Identifier (Src 5 ''x'')))]))
     Optimizer) =
   BlockStatement
     [VariableDeclaration ''let''
        [(Identifier (Uid 0 ''cache''),
          Some (CallExpression (Identifier (Runtime ''cache''))
                  [Identifier (Runtime ''useMemo''), NumericLiteral 2])),
         (Identifier (Uid 2 ''equals''),
          Some (CallExpression (Identifier (Runtime ''equals''))
                  [Identifier (Uid 0 ''cache''), NumericLiteral 0, Identifier (Src 1 ''x'')])),
         (Identifier (Uid 1 ''value''),
          Some (ConditionalExpression (Identifier (Uid 2 ''equals''))
                  (MemberExpression (Identifier (Uid 0 ''cache'')) (NumericLiteral 0) True)
                  (AssignmentExpression ''=''
                     (MemberExpression (Identifier (Uid 0 ''cache'')) (NumericLiteral 0) True)
                     (Identifier (Src 1 ''x'')))))],
      ExpressionStatement (Identifier (Uid 1 ''value'')),
      BlockStatement
        [VariableDeclaration ''let''
           [(Identifier (Uid 3 ''cache''),
             Some (CallExpression (Identifier (Runtime ''branch''))
                     [Identifier (Uid 0 ''cache''), NumericLiteral 1, NumericLiteral 1])),
            (Identifier (Uid 5 ''equals''),
             Some (CallExpression (Identifier (Runtime ''equals''))
                     [Identifier (Uid 3 ''cache''), NumericLiteral 0, Identifier (Src 1 ''x'')])),
            (Identifier (Uid 4 ''value''),
             Some (ConditionalExpression (Identifier (Uid 5 ''equals''))
                     (MemberExpression (Identifier (Uid 3 ''cache'')) (NumericLiteral 0) True)
                     (AssignmentExpression ''=''
                        (MemberExpression (Identifier (Uid 3 ''cache'')) (NumericLiteral 0) True)
                        (Identifier (Src 1 ''x'')))))],
         ExpressionStatement (Identifier (Uid 4 ''value'')),
         ExpressionStatement
           (AssignmentExpression ''='' (Identifier (Src 4 ''x'')) (NumericLiteral 1))],
      ReturnStatement (Some (Identifier (Uid 1 ''value'')))]"
  by code_simp

section \<open>Loop statements\<close>

text \<open>
  What \<open>optimizeLoopStatement\<close> does once the walk of the body has returned with the
  loop scope current and the ancestors as they were, their optimized tables apart (which is
  what \<open>shape\<close> compares; lemma \<open>shape_optimizeStatement\<close> shows it of the statement
  walk). The finalization of a loop scope does not touch the ancestors.
\<close>

lemma frameView_fields:
  assumes "frameView p = frameView q"
  shows "memo p = memo q" "ref p = ref q" "indecesMemo p = indecesMemo q"
    "indecesRef p = indecesRef q" "statements p = statements q" "isInLoop p = isInLoop q"
    "loop p = loop q" "loopIndex p = loopIndex q" "constants p = constants q"
proof -
  have "memo (frameView p) = memo (frameView q)" "ref (frameView p) = ref (frameView q)"
    "indecesMemo (frameView p) = indecesMemo (frameView q)"
    "indecesRef (frameView p) = indecesRef (frameView q)"
    "statements (frameView p) = statements (frameView q)"
    "isInLoop (frameView p) = isInLoop (frameView q)"
    "loop (frameView p) = loop (frameView q)"
    "loopIndex (frameView p) = loopIndex (frameView q)"
    "constants (frameView p) = constants (frameView q)"
    using assms by simp_all
  then show "memo p = memo q" "ref p = ref q" "indecesMemo p = indecesMemo q"
    "indecesRef p = indecesRef q" "statements p = statements q" "isInLoop p = isInLoop q"
    "loop p = loop q" "loopIndex p = loopIndex q" "constants p = constants q"
    by (simp_all add: frameView_def)
qed

lemma shape_enterScopeD:
  assumes "shape s1 = shape (enterScope inLoop s)"
  obtains p ps where "parents s1 = p # ps" "frameView p = frameView (scope s)"
    "map frameView ps = map frameView (parents s)" "isInLoop (scope s1) = inLoop"
proof -
  from assms have a: "isInLoop (scope s1) = inLoop"
    and b: "map frameView (parents s1) = frameView (scope s) # map frameView (parents s)"
    by (simp_all add: shape_def enterScope_def OptimizerScope_def)
  from b obtain p ps where "parents s1 = p # ps"
    by (cases "parents s1") auto
  with a b that show ?thesis by auto
qed

lemma getStatements_loop:
  assumes "isInLoop this"
  shows "getStatements this ps u =
     (let mh = getLoopMemoHeaderDeclaration this u;
          rh = getLoopRefHeaderDeclaration (fst (snd mh)) (snd (snd mh))
      in (mergeVariableDeclaration (orEmpty (fst mh) @ orEmpty (fst rh) @ statements this),
          fst (snd rh), ps, snd (snd rh)))"
proof -
  have "isInLoop (fst (snd (getLoopMemoHeaderDeclaration this u)))"
    using assms
    by (simp add: getLoopMemoHeaderDeclaration_def Let_def split_beta split: option.splits)
  then show ?thesis
    using assms by (simp add: getStatements_def Let_def split_beta)
qed

lemma createHeader_indeces [simp]:
  "indecesMemo (fst (snd (createHeader type sc u))) = indecesMemo sc"
  "indecesRef (fst (snd (createHeader type sc u))) = indecesRef sc"
  by (simp_all add: createHeader_def generateUidIdentifier_def
        split: cache_type.splits option.splits)

text \<open>
  The loop memo declaration
  \<open>let loopHeader = branch(parentHeader, parentSlot, 0), loopIdx = 0\<close>.
\<close>

definition loopMemoDeclaration :: "ident \<Rightarrow> ident \<Rightarrow> nat \<Rightarrow> ident \<Rightarrow> stmt" where
  "loopMemoDeclaration loopHeader parentHeader parentSlot loopIdx =
     VariableDeclaration ''let''
       [(Identifier loopHeader,
         Some (CallExpression (getImportIdentifier RUNTIME_BRANCH)
                 [Identifier parentHeader, NumericLiteral (of_nat parentSlot), NumericLiteral 0])),
        (Identifier loopIdx, Some (NumericLiteral 0))]"

lemma optimizeLoopStatement_unfold:
  assumes sh: "shape (f body True (enterScope True s)) = shape (enterScope True s)"
  shows "optimizeLoopStatement f env body s =
     (let s1 = f body True (enterScope True s);
          fin = getStatements (scope s1) (parents s1) (uid s1);
          L1 = fst (snd fin);
          u1 = snd (snd (snd fin));
          p = hd (parents s1);
          ph = createHeader TMemo p u1;
          li = createLoopIndex L1 (snd (snd ph));
          lh = createHeader TMemo (fst (snd li)) (snd (snd li))
      in (BlockStatement (fst fin),
          s1\<lparr>scope := push [loopMemoDeclaration (fst lh) (fst ph) (indecesMemo p) (fst li)]
                           (snd (createIndex TMemo (fst (snd ph)))),
             parents := tl (parents s1),
             uid := snd (snd lh)\<rparr>))"
proof -
  obtain p ps where par: "parents (f body True (enterScope True s)) = p # ps"
    and loop: "isInLoop (scope (f body True (enterScope True s))) = True"
    using shape_enterScopeD[OF sh] by metis
  show ?thesis
    using loop
    by (simp add: optimizeLoopStatement_def leaveScope_def childStatements_def
          childLoopMemoDeclaration_def getLoopMemoDeclaration_def par Let_def split_beta
          getStatements_loop pushStatements_def loopMemoDeclaration_def createIndex_def)
qed

lemma getMemoDeclarations_declares:
  "memo this = Some m \<Longrightarrow>
   \<exists>init. fst (getMemoDeclarations this ps u) =
     Some [VariableDeclaration ''let'' [(Identifier m, Some init)]]"
  by (cases ps)
     (simp_all add: getMemoDeclarations_def Let_def split_beta createHeader_def)

lemma getLoopMemoDeclaration_declares:
  "memo this = Some m \<Longrightarrow>
   \<exists>init idx. fst (getLoopMemoDeclaration this (p # ps) u) =
     Some (VariableDeclaration ''let'' [(Identifier m, Some init), (Identifier idx, Some (NumericLiteral 0))])"
  by (simp add: getLoopMemoDeclaration_def Let_def split_beta createHeader_def
        createLoopIndex_def generateUidIdentifier_def split: option.splits)

lemma createHeader_memo:
  "memo (fst (snd (createHeader TMemo sc u))) = Some (fst (createHeader TMemo sc u))"
  "memo sc \<noteq> None \<Longrightarrow> Some (fst (createHeader TMemo sc u)) = memo sc"
  by (auto simp: createHeader_def generateUidIdentifier_def split: option.splits)

text \<open>
  Claim C9. Whatever the walk of the loop body does in the loop scope, once it has returned
  \<open>optimizeLoopStatement\<close> pushes the loop memo declaration into the enclosing scope:
  the next memo slot of the enclosing scope is consumed (and no ref slot), the memo header
  of the enclosing scope exists afterwards (the one it had, if it had one), the
  declaration is the only statement added and names that header and that slot, and the
  finalization of the enclosing scope declares the header: \<open>getMemoDeclarations\<close>
  yields a declaration of it, and so does \<open>getLoopMemoDeclaration\<close> where the enclosing
  scope is itself the scope of a loop.
\<close>

theorem loop_forces_parent_memo:
  "let s1 = f body True (enterScope True s);
       s' = snd (optimizeLoopStatement f env body s)
   in shape s1 = shape (enterScope True s) \<longrightarrow>
        indecesMemo (scope s') = Suc (indecesMemo (scope s)) \<and>
        indecesRef (scope s') = indecesRef (scope s) \<and>
        (\<exists>parentHeader loopHeader loopIdx.
           memo (scope s') = Some parentHeader \<and>
           (memo (scope s) \<noteq> None \<longrightarrow> memo (scope s) = Some parentHeader) \<and>
           statements (scope s') =
             statements (scope s) @
             [loopMemoDeclaration loopHeader parentHeader (indecesMemo (scope s)) loopIdx] \<and>
           (\<forall>ps u. \<exists>init. fst (getMemoDeclarations (scope s') ps u) =
                       Some [VariableDeclaration ''let'' [(Identifier parentHeader, Some init)]]) \<and>
           (\<forall>p ps u. \<exists>init idx. fst (getLoopMemoDeclaration (scope s') (p # ps) u) =
                       Some (VariableDeclaration ''let''
                               [(Identifier parentHeader, Some init),
                                (Identifier idx, Some (NumericLiteral 0))]))) \<and>
        shape s' = shape s"
proof -
  have "?thesis" if sh: "shape (f body True (enterScope True s)) = shape (enterScope True s)"
  proof -
    define s1 where "s1 = f body True (enterScope True s)"
    define fin where "fin = getStatements (scope s1) (parents s1) (uid s1)"
    define ph where "ph = createHeader TMemo (hd (parents s1)) (snd (snd (snd fin)))"
    define li where "li = createLoopIndex (fst (snd fin)) (snd (snd ph))"
    define lh where "lh = createHeader TMemo (fst (snd li)) (snd (snd li))"
    define sc' where "sc' = push [loopMemoDeclaration (fst lh) (fst ph)
                                   (indecesMemo (hd (parents s1))) (fst li)]
                              (snd (createIndex TMemo (fst (snd ph))))"
    obtain p ps where par: "parents s1 = p # ps" and fr: "frameView p = frameView (scope s)"
      and frs: "map frameView ps = map frameView (parents s)"
      using shape_enterScopeD[OF sh[folded s1_def]] by metis
    note pf = frameView_fields[OF fr]
    have r: "snd (optimizeLoopStatement f env body s) =
               s1\<lparr>scope := sc', parents := tl (parents s1), uid := snd (snd lh)\<rparr>"
      by (simp add: optimizeLoopStatement_unfold[where f = f and body = body and s = s, OF sh] Let_def s1_def fin_def ph_def li_def
            lh_def sc'_def)
    have sc: "scope (snd (optimizeLoopStatement f env body s)) = sc'"
      by (simp add: r)
    have m: "memo sc' = Some (fst ph)"
      by (simp add: sc'_def push_def createIndex_def ph_def createHeader_memo)
    have m0: "memo (scope s) \<noteq> None \<longrightarrow> memo (scope s) = Some (fst ph)"
      using createHeader_memo(2)[of p "snd (snd (snd fin))"]
      by (simp add: ph_def par pf)
    have i: "indecesMemo sc' = Suc (indecesMemo (scope s))" "indecesRef sc' = indecesRef (scope s)"
      by (simp_all add: sc'_def push_def createIndex_def ph_def par pf)
    have st: "statements sc' = statements (scope s) @
               [loopMemoDeclaration (fst lh) (fst ph) (indecesMemo (scope s)) (fst li)]"
      by (simp add: sc'_def push_def createIndex_def ph_def par pf)
    have shp: "shape (snd (optimizeLoopStatement f env body s)) = shape s"
      using sh frs by (simp add: r shape_def par sc'_def push_def createIndex_def ph_def pf)
    show ?thesis
      unfolding Let_def sc
      using m m0 i st shp getMemoDeclarations_declares[OF m]
        getLoopMemoDeclaration_declares[OF m]
      by (intro impI conjI exI[of _ "fst ph"] exI[of _ "fst lh"] exI[of _ "fst li"] allI)
         (simp_all add: sc)
  qed
  then show ?thesis
    by (simp add: Let_def)
qed

theorem loop_forces_parent_memo_witness:
  "let env = componentEnv [] [];
       s' = snd (optimizeLoopStatement (optimizeStatement env) env (BlockStatement []) Optimizer)
   in optimizeStatement env (BlockStatement []) True (enterScope True Optimizer) =
        enterScope True Optimizer \<and>
      indecesMemo (scope Optimizer) = 0 \<and>
      indecesMemo (scope s') = 1 \<and>
      memo (scope Optimizer) = None \<and>
      memo (scope s') = Some (Uid 0 ''cache'') \<and>
      statements (scope s') =
        [loopMemoDeclaration (Uid 2 ''cache'') (Uid 0 ''cache'') 0 (Uid 1 ''id'')] \<and>
      fst (getMemoDeclarations (scope s') [] (uid s')) =
        Some [VariableDeclaration ''let''
                [(Identifier (Uid 0 ''cache''),
                  Some (CallExpression (Identifier (Runtime ''cache''))
                          [Identifier (Runtime ''useMemo''), NumericLiteral 1]))]]"
proof -
  define env where "env = componentEnv [] []"
  define s' where
    "s' = snd (optimizeLoopStatement (optimizeStatement env) env (BlockStatement []) Optimizer)"
  have sk: "shouldSkipStatement env st = False" for st
    by (simp add: env_def componentEnv_def)
  have w: "optimizeStatement env (BlockStatement []) True t = t" for t
    by (simp add: optimizeStatement.simps optimizeBlockStatement_def optimizeBlock_def sk)
  have e: "memo (scope s') = Some (Uid 0 ''cache'')"
    "statements (scope s') = [loopMemoDeclaration (Uid 2 ''cache'') (Uid 0 ''cache'') 0 (Uid 1 ''id'')]"
    "fst (getMemoDeclarations (scope s') [] (uid s')) =
        Some [VariableDeclaration ''let''
                [(Identifier (Uid 0 ''cache''),
                  Some (CallExpression (Identifier (Runtime ''cache''))
                          [Identifier (Runtime ''useMemo''), NumericLiteral 1]))]]"
    unfolding s'_def env_def by code_simp+
  have z: "indecesMemo (scope Optimizer) = 0" "memo (scope Optimizer) = None"
    by (simp_all add: Optimizer_def OptimizerScope_def)
  have "indecesMemo (scope s') = 1"
    using loop_forces_parent_memo
            [where f = "optimizeStatement env" and env = env and body = "BlockStatement []"
               and s = Optimizer]
          z
    by (simp add: Let_def s'_def w)
  then show ?thesis
    unfolding Let_def env_def[symmetric] s'_def[symmetric] using e z w by simp
qed

text \<open>
  The statement walk hands back the scope chain for every body (lemma
  \<open>shape_optimizeStatement\<close>), so that for the walk itself no hypothesis is left.
\<close>

lemma loop_memo_declaration_statement_walk:
  "let s' = snd (optimizeLoopStatement (optimizeStatement env) env body s)
   in indecesMemo (scope s') = Suc (indecesMemo (scope s)) \<and>
      memo (scope s') \<noteq> None \<and>
      length (pushed s s') = 1 \<and>
      take (length (statements (scope s))) (statements (scope s')) = statements (scope s)"
proof -
  have sh: "shape (optimizeStatement env body True (enterScope True s)) =
            shape (enterScope True s)"
    by (rule shape_optimizeStatement)
  obtain p ps where par: "parents (optimizeStatement env body True (enterScope True s)) = p # ps"
    and fr: "frameView p = frameView (scope s)"
    using shape_enterScopeD[OF sh] by metis
  note pf = frameView_fields[OF fr]
  show ?thesis
    by (simp add: optimizeLoopStatement_unfold[where f = "optimizeStatement env", OF sh]
          Let_def par pf push_def createIndex_def pushed_def createHeader_memo)
qed









end
